theory Spec2Isabelle
  imports Complex_Main
begin

section \<open>Floating-point values and arrays\<close>

text \<open>
  The module \<^verbatim>\<open>Formeln.py\<close> computes key figures of monthly fund returns with
  numpy on \<^verbatim>\<open>float64\<close> arrays. A float is modelled as a finite real, one of the two
  infinities, or NaN. NaN is also the marker numpy and the module use for a missing
  observation and for an undefined result.

  Every arithmetic operation takes the rounding function applied to a finite
  result. With \<open>exact\<close> nothing is rounded: this is the arithmetic of the theorems below that
  compare a key figure with its formula. With \<open>binary64\<close> a result is rounded to the nearest value
  with a 53-bit significand, ties to even, as IEEE 754 double precision does; the exponent
  range is not bounded there, so overflow and underflow are outside the model, and so is
  the sign of zero.
\<close>

datatype npfloat = Fin real | PInf | NInf | NaN

type_synonym rounding = "real \<Rightarrow> real"

definition exact :: rounding where
  "exact x = x"

definition round_half_even :: "real \<Rightarrow> int" where
  "round_half_even x =
     (let f = \<lfloor>x\<rfloor>; d = x - of_int f
      in if d < 1 / 2 then f
         else if 1 / 2 < d then f + 1
         else if even f then f else f + 1)"

definition binary64 :: rounding where
  "binary64 x =
     (if x = 0 then 0
      else let e = \<lfloor>log 2 \<bar>x\<bar>\<rfloor> - 52
           in of_int (round_half_even (x / 2 powr of_int e)) * 2 powr of_int e)"

datatype error = ValueError | IndexError

fun isnan :: "npfloat \<Rightarrow> bool" where
  "isnan NaN = True"
| "isnan _ = False"

fun isinf :: "npfloat \<Rightarrow> bool" where
  "isinf PInf = True"
| "isinf NInf = True"
| "isinf _ = False"

fun fneg :: "npfloat \<Rightarrow> npfloat" where
  "fneg (Fin a) = Fin (- a)"
| "fneg PInf = NInf"
| "fneg NInf = PInf"
| "fneg NaN = NaN"

fun fadd :: "rounding \<Rightarrow> npfloat \<Rightarrow> npfloat \<Rightarrow> npfloat" where
  "fadd rnd (Fin a) (Fin b) = Fin (rnd (a + b))"
| "fadd rnd NaN y = NaN"
| "fadd rnd x NaN = NaN"
| "fadd rnd PInf NInf = NaN"
| "fadd rnd NInf PInf = NaN"
| "fadd rnd PInf y = PInf"
| "fadd rnd NInf y = NInf"
| "fadd rnd x PInf = PInf"
| "fadd rnd x NInf = NInf"

definition fsub :: "rounding \<Rightarrow> npfloat \<Rightarrow> npfloat \<Rightarrow> npfloat" where
  "fsub rnd x y = fadd rnd x (fneg y)"

text \<open>The sign of an infinite product or quotient; a zero counts as positive.\<close>

definition signed_inf :: "bool \<Rightarrow> npfloat" where
  "signed_inf positive = (if positive then PInf else NInf)"

fun fmul :: "rounding \<Rightarrow> npfloat \<Rightarrow> npfloat \<Rightarrow> npfloat" where
  "fmul rnd (Fin a) (Fin b) = Fin (rnd (a * b))"
| "fmul rnd NaN y = NaN"
| "fmul rnd x NaN = NaN"
| "fmul rnd (Fin a) PInf = (if a = 0 then NaN else signed_inf (0 < a))"
| "fmul rnd (Fin a) NInf = (if a = 0 then NaN else signed_inf (a < 0))"
| "fmul rnd PInf (Fin b) = (if b = 0 then NaN else signed_inf (0 < b))"
| "fmul rnd NInf (Fin b) = (if b = 0 then NaN else signed_inf (b < 0))"
| "fmul rnd PInf PInf = PInf"
| "fmul rnd PInf NInf = NInf"
| "fmul rnd NInf PInf = NInf"
| "fmul rnd NInf NInf = PInf"

fun fdiv :: "rounding \<Rightarrow> npfloat \<Rightarrow> npfloat \<Rightarrow> npfloat" where
  "fdiv rnd (Fin a) (Fin b) =
     (if b = 0 then (if a = 0 then NaN else signed_inf (0 < a))
      else Fin (rnd (a / b)))"
| "fdiv rnd NaN y = NaN"
| "fdiv rnd x NaN = NaN"
| "fdiv rnd (Fin a) PInf = Fin 0"
| "fdiv rnd (Fin a) NInf = Fin 0"
| "fdiv rnd PInf (Fin b) = signed_inf (0 \<le> b)"
| "fdiv rnd NInf (Fin b) = signed_inf (b < 0)"
| "fdiv rnd PInf y = NaN"
| "fdiv rnd NInf y = NaN"

fun fsqrt :: "rounding \<Rightarrow> npfloat \<Rightarrow> npfloat" where
  "fsqrt rnd (Fin a) = (if a < 0 then NaN else Fin (rnd (sqrt a)))"
| "fsqrt rnd PInf = PInf"
| "fsqrt rnd NInf = NaN"
| "fsqrt rnd NaN = NaN"

text \<open>
  \<^verbatim>\<open>x ** y\<close> for a float \<open>x\<close> and a finite exponent \<open>y\<close> (the module's only
  exponent is \<^verbatim>\<open>12 / len(returns)\<close>): a negative base with an exponent that is
  not an integer gives NaN, zero to a negative exponent gives infinity.
\<close>

definition is_integer :: "real \<Rightarrow> bool" where
  "is_integer y \<longleftrightarrow> of_int \<lfloor>y\<rfloor> = y"

fun fpow :: "rounding \<Rightarrow> npfloat \<Rightarrow> real \<Rightarrow> npfloat" where
  "fpow rnd (Fin a) y =
     (if y = 0 then Fin 1
      else if 0 < a then Fin (rnd (a powr y))
      else if a = 0 then (if 0 < y then Fin 0 else PInf)
      else if is_integer y then Fin (rnd (a powi \<lfloor>y\<rfloor>))
      else NaN)"
| "fpow rnd NaN y = (if y = 0 then Fin 1 else NaN)"
| "fpow rnd PInf y = (if y = 0 then Fin 1 else if 0 < y then PInf else Fin 0)"
| "fpow rnd NInf y =
     (if y = 0 then Fin 1
      else if 0 < y then (if is_integer y \<and> odd \<lfloor>y\<rfloor> then NInf else PInf)
      else Fin 0)"

text \<open>Comparisons: every comparison with NaN is false.\<close>

fun fle :: "npfloat \<Rightarrow> npfloat \<Rightarrow> bool" where
  "fle NaN y = False"
| "fle x NaN = False"
| "fle (Fin a) (Fin b) = (a \<le> b)"
| "fle NInf y = True"
| "fle x PInf = True"
| "fle PInf y = False"
| "fle x NInf = False"

definition feq :: "npfloat \<Rightarrow> npfloat \<Rightarrow> bool" where
  "feq x y \<longleftrightarrow> \<not> isnan x \<and> \<not> isnan y \<and> x = y"

definition flt :: "npfloat \<Rightarrow> npfloat \<Rightarrow> bool" where
  "flt x y \<longleftrightarrow> fle x y \<and> x \<noteq> y"

text \<open>\<^verbatim>\<open>np.maximum\<close> and \<^verbatim>\<open>np.minimum\<close> propagate NaN;
  \<^verbatim>\<open>np.fmax\<close> and \<^verbatim>\<open>np.fmin\<close> ignore it.\<close>

definition np_maximum :: "npfloat \<Rightarrow> npfloat \<Rightarrow> npfloat" where
  "np_maximum x y = (if isnan x \<or> isnan y then NaN else if fle x y then y else x)"

definition np_fmax :: "npfloat \<Rightarrow> npfloat \<Rightarrow> npfloat" where
  "np_fmax x y = (if isnan x then y else if isnan y then x else if fle x y then y else x)"


subsection \<open>Arrays\<close>

text \<open>
  A float array is a list of floats; \<^verbatim>\<open>np.asarray(a, dtype=np.float64)\<close> leaves it
  as it is. The array of a return series, whose observations are finite or missing, is
  \<open>series rs\<close>: \<open>Some x\<close> is the return \<open>x\<close>, \<open>None\<close> a missing month (NaN).
\<close>

definition series :: "real option list \<Rightarrow> npfloat list" where
  "series rs = map (\<lambda>r. case r of None \<Rightarrow> NaN | Some x \<Rightarrow> Fin x) rs"

text \<open>
  \<^verbatim>\<open>np.sum\<close> starts from the first element and adds the others to it from left to
  right; this is the order of numpy for an array of fewer than eight elements. From
  eight elements on numpy adds in eight lanes and in pairwise blocks, a regrouping that
  does not change an exact sum. The sum of the empty array is 0.
\<close>

definition np_sum :: "rounding \<Rightarrow> npfloat list \<Rightarrow> npfloat" where
  "np_sum rnd xs = (case xs of [] \<Rightarrow> Fin 0 | x # rest \<Rightarrow> foldl (fadd rnd) x rest)"

definition np_prod :: "rounding \<Rightarrow> npfloat list \<Rightarrow> npfloat" where
  "np_prod rnd xs = (case xs of [] \<Rightarrow> Fin 1 | x # rest \<Rightarrow> foldl (fmul rnd) x rest)"

text \<open>\<^verbatim>\<open>ufunc.accumulate\<close>: the running results of a left fold.\<close>

fun accumulate_from :: "('a \<Rightarrow> 'a \<Rightarrow> 'a) \<Rightarrow> 'a \<Rightarrow> 'a list \<Rightarrow> 'a list" where
  "accumulate_from f acc [] = []"
| "accumulate_from f acc (x # xs) = f acc x # accumulate_from f (f acc x) xs"

definition accumulate :: "('a \<Rightarrow> 'a \<Rightarrow> 'a) \<Rightarrow> 'a list \<Rightarrow> 'a list" where
  "accumulate f xs = (case xs of [] \<Rightarrow> [] | x # rest \<Rightarrow> x # accumulate_from f x rest)"

definition np_cumprod :: "rounding \<Rightarrow> npfloat list \<Rightarrow> npfloat list" where
  "np_cumprod rnd xs = accumulate (fmul rnd) xs"

definition np_maximum_accumulate :: "npfloat list \<Rightarrow> npfloat list" where
  "np_maximum_accumulate xs = accumulate np_maximum xs"

text \<open>
  \<^verbatim>\<open>np.nanmax\<close> and \<^verbatim>\<open>np.nanmin\<close> reduce with \<^verbatim>\<open>fmax\<close> and
  \<^verbatim>\<open>fmin\<close>: the result is NaN (with a warning) when every element is NaN, and
  the empty array raises \<^verbatim>\<open>ValueError\<close>.
\<close>

definition np_nanmax :: "npfloat list \<Rightarrow> error + npfloat" where
  "np_nanmax xs = (case xs of [] \<Rightarrow> Inl ValueError | x # rest \<Rightarrow> Inr (foldl np_fmax x rest))"


text \<open>
  \<^verbatim>\<open>np.nan_to_num(a, nan=0)\<close> replaces NaN by 0 and an infinity by the largest
  finite double of its sign.
\<close>

definition max_double :: real where
  "max_double = (2 - 1 / 2 ^ 52) * 2 ^ 1023"

fun np_nan_to_num :: "npfloat \<Rightarrow> npfloat" where
  "np_nan_to_num NaN = Fin 0"
| "np_nan_to_num PInf = Fin max_double"
| "np_nan_to_num NInf = Fin (- max_double)"
| "np_nan_to_num (Fin a) = Fin a"

text \<open>
  An elementwise operation on two one-dimensional arrays broadcasts an array of length
  one and raises \<^verbatim>\<open>ValueError\<close> on any other two different lengths.
\<close>

definition broadcast :: "('a \<Rightarrow> 'b \<Rightarrow> 'c) \<Rightarrow> 'a list \<Rightarrow> 'b list \<Rightarrow> error + 'c list" where
  "broadcast f xs ys =
     (if length xs = length ys then Inr (map2 f xs ys)
      else if length xs = 1 then Inr (map (f (hd xs)) ys)
      else if length ys = 1 then Inr (map (\<lambda>x. f x (hd ys)) xs)
      else Inl ValueError)"

text \<open>\<^verbatim>\<open>a[msk]\<close> with a boolean mask: the mask must have the length of the array.\<close>

definition bool_index :: "'a list \<Rightarrow> bool list \<Rightarrow> error + 'a list" where
  "bool_index xs msk =
     (if length msk = length xs then Inr (map fst (filter snd (zip xs msk)))
      else Inl IndexError)"

definition count_true :: "bool list \<Rightarrow> nat" where
  "count_true msk = length (filter (\<lambda>b. b) msk)"

text \<open>An exception of a step ends the function that called it.\<close>

definition bind_result :: "error + 'a \<Rightarrow> ('a \<Rightarrow> error + 'b) \<Rightarrow> error + 'b" where
  "bind_result m f = (case m of Inl e \<Rightarrow> Inl e | Inr v \<Rightarrow> f v)"

subsection \<open>Variance, covariance and correlation of numpy\<close>

text \<open>
  \<^verbatim>\<open>np.var(a, ddof)\<close>: the mean is the sum divided by the length, the result the
  sum of the squared deviations divided by \<^verbatim>\<open>max(n - ddof, 0)\<close>.
  \<^verbatim>\<open>np.std\<close> is its square root.
\<close>

definition np_var :: "rounding \<Rightarrow> npfloat list \<Rightarrow> int \<Rightarrow> npfloat" where
  "np_var rnd a ddof =
     (let n = int (length a);
          arrmean = fdiv rnd (np_sum rnd a) (Fin (of_int n));
          x = map (\<lambda>v. fsub rnd v arrmean) a;
          x = map (\<lambda>v. fmul rnd v v) x;
          ret = np_sum rnd x;
          rcount = max (n - ddof) 0
      in fdiv rnd ret (Fin (of_int rcount)))"

definition np_std :: "rounding \<Rightarrow> npfloat list \<Rightarrow> int \<Rightarrow> npfloat" where
  "np_std rnd a ddof = fsqrt rnd (np_var rnd a ddof)"

text \<open>
  \<^verbatim>\<open>np.nanvar(a, ddof)\<close>: NaN entries are replaced by 0 and masked, the mean is
  the sum divided by the count of the other entries, the deviations of the masked
  entries are set to 0 again, and the result is NaN when \<^verbatim>\<open>count - ddof <= 0\<close>.
  \<^verbatim>\<open>np.nanstd\<close> is its square root.
\<close>

definition np_nanvar :: "rounding \<Rightarrow> npfloat list \<Rightarrow> int \<Rightarrow> npfloat" where
  "np_nanvar rnd a ddof =
     (let msk = map isnan a;
          arr = map (\<lambda>v. if isnan v then Fin 0 else v) a;
          cnt = int (count_true (map Not msk));
          avg = fdiv rnd (np_sum rnd arr) (Fin (of_int cnt));
          arr = map (\<lambda>v. fsub rnd v avg) arr;
          arr = map2 (\<lambda>v m. if m then Fin 0 else v) arr msk;
          sqr = map (\<lambda>v. fmul rnd v v) arr;
          var = np_sum rnd sqr;
          dof = cnt - ddof;
          var = fdiv rnd var (Fin (of_int dof))
      in if dof \<le> 0 then NaN else var)"

definition np_nanstd :: "rounding \<Rightarrow> npfloat list \<Rightarrow> int \<Rightarrow> npfloat" where
  "np_nanstd rnd a ddof = fsqrt rnd (np_nanvar rnd a ddof)"

text \<open>
  \<^verbatim>\<open>np.cov(x, y, ddof)\<close>: the two rows must have one length; each row is centred
  on its mean, and every product of two centred rows is multiplied by
  \<^verbatim>\<open>1 / fact\<close> with \<^verbatim>\<open>fact = n - ddof\<close>, set to 0 when it is not positive.
  The result is the matrix as the list of its rows.
\<close>

definition np_dot :: "rounding \<Rightarrow> npfloat list \<Rightarrow> npfloat list \<Rightarrow> npfloat" where
  "np_dot rnd u v = np_sum rnd (map2 (fmul rnd) u v)"

definition centre :: "rounding \<Rightarrow> npfloat list \<Rightarrow> npfloat list" where
  "centre rnd row =
     (let avg = fdiv rnd (np_sum rnd row) (Fin (of_int (int (length row))))
      in map (\<lambda>v. fsub rnd v avg) row)"

definition np_cov :: "rounding \<Rightarrow> npfloat list \<Rightarrow> npfloat list \<Rightarrow> int \<Rightarrow> error + npfloat list list" where
  "np_cov rnd x y ddof =
     (if length x \<noteq> length y then Inl ValueError
      else
        let X = [x, y];
            fact = int (length x) - ddof;
            fact = (if fact \<le> 0 then 0 else fact);
            X = map (centre rnd) X
        in Inr (map (\<lambda>u. map (\<lambda>v. fmul rnd (np_dot rnd u v) (fdiv rnd (Fin 1) (Fin (of_int fact)))) X) X))"

text \<open>
  \<^verbatim>\<open>np.corrcoef(x, y)\<close>: the covariance matrix with \<^verbatim>\<open>ddof = 1\<close>, each entry
  divided by the standard deviation of its row and then by that of its column, and
  clipped to the interval from -1 to 1.
\<close>

definition np_clip :: "npfloat \<Rightarrow> npfloat \<Rightarrow> npfloat \<Rightarrow> npfloat" where
  "np_clip v lo hi =
     (if isnan v then NaN else if fle v lo then lo else if fle hi v then hi else v)"

definition np_corrcoef :: "rounding \<Rightarrow> npfloat list \<Rightarrow> npfloat list \<Rightarrow> error + npfloat list list" where
  "np_corrcoef rnd x y =
     bind_result (np_cov rnd x y 1) (\<lambda>c.
       let d = [c ! 0 ! 0, c ! 1 ! 1];
           stddev = map (fsqrt rnd) d;
           c = map2 (\<lambda>row s. map (\<lambda>v. fdiv rnd v s) row) c stddev;
           c = map (\<lambda>row. map2 (fdiv rnd) row stddev) c
       in Inr (map (map (\<lambda>v. np_clip v (Fin (- 1)) (Fin 1))) c))"

section \<open>The key figures\<close>

definition annualized_return :: "rounding \<Rightarrow> npfloat list \<Rightarrow> npfloat" where
  "annualized_return rnd returns =
     (let returns = filter (\<lambda>v. \<not> isnan v) returns
      in if length returns = 0 then NaN
         else
           let cum_return = np_prod rnd (map (fadd rnd (Fin 1)) returns)
           in fsub rnd (fpow rnd cum_return (rnd (12 / real (length returns)))) (Fin 1))"

definition volatility :: "rounding \<Rightarrow> npfloat list \<Rightarrow> npfloat" where
  "volatility rnd returns = fmul rnd (np_nanstd rnd returns 1) (fsqrt rnd (Fin 12))"

definition maximum_drawdown :: "rounding \<Rightarrow> npfloat list \<Rightarrow> error + npfloat" where
  "maximum_drawdown rnd returns =
     (if list_all isnan returns then Inr NaN
      else
        let cum_returns = np_cumprod rnd (map (\<lambda>v. fadd rnd (Fin 1) (np_nan_to_num v)) returns);
            running_max = np_maximum_accumulate cum_returns;
            drawdowns = map2 (\<lambda>c m. fsub rnd (Fin 1) (fdiv rnd c m)) cum_returns running_max
        in np_nanmax drawdowns)"

text \<open>The risk-free rate is one float or an array (\<^verbatim>\<open>np.ndarray\<close> or list).\<close>

datatype risk_free = Scalar npfloat | Array "npfloat list"

definition sharpe_ratio :: "rounding \<Rightarrow> npfloat list \<Rightarrow> risk_free \<Rightarrow> error + npfloat" where
  "sharpe_ratio rnd returns risk_free_rate =
     bind_result
       (case risk_free_rate of
          Array rf \<Rightarrow>
            bind_result (broadcast (fsub rnd) returns rf) (\<lambda>excess_returns.
              Inr (annualized_return rnd excess_returns, volatility rnd excess_returns))
        | Scalar rf \<Rightarrow>
            Inr (fsub rnd (annualized_return rnd returns) rf, volatility rnd returns))
       (\<lambda>(ann_excess_return, vol).
          if feq vol (Fin 0) \<or> isnan vol then Inr NaN
          else Inr (fdiv rnd ann_excess_return vol))"

definition omega_ratio :: "rounding \<Rightarrow> npfloat list \<Rightarrow> npfloat \<Rightarrow> npfloat" where
  "omega_ratio rnd returns threshold =
     (let returns = filter (\<lambda>v. \<not> isnan v) returns
      in if length returns = 0 then NaN
         else
           let gains = np_sum rnd (map (\<lambda>r. np_maximum (fsub rnd r threshold) (Fin 0)) returns);
               losses = np_sum rnd (map (\<lambda>r. np_maximum (fsub rnd threshold r) (Fin 0)) returns)
           in if feq losses (Fin 0) then Fin 1000 else fdiv rnd gains losses)"


definition tracking_error :: "rounding \<Rightarrow> npfloat list \<Rightarrow> npfloat list \<Rightarrow> error + npfloat" where
  "tracking_error rnd returns benchmark_returns =
     bind_result (broadcast (fsub rnd) returns benchmark_returns) (\<lambda>active_returns.
       let active_returns = filter (\<lambda>v. \<not> isnan v) active_returns
       in if length active_returns \<le> 1 then Inr NaN
          else Inr (fmul rnd (np_std rnd active_returns 1) (fsqrt rnd (Fin 12))))"

definition beta :: "rounding \<Rightarrow> npfloat list \<Rightarrow> npfloat list \<Rightarrow> error + npfloat" where
  "beta rnd returns benchmark_returns =
     bind_result (broadcast (\<lambda>r b. \<not> (isnan r \<or> isnan b)) returns benchmark_returns) (\<lambda>valid.
       if count_true valid \<le> 1 then Inr NaN
       else
         bind_result (bool_index returns valid) (\<lambda>returns_valid.
         bind_result (bool_index benchmark_returns valid) (\<lambda>benchmark_valid.
         bind_result (np_cov rnd returns_valid benchmark_valid 1) (\<lambda>c.
           let cov = c ! 0 ! 1;
               var = np_var rnd benchmark_valid 1
           in if feq var (Fin 0) then Inr NaN else Inr (fdiv rnd cov var)))))"

definition r_squared :: "rounding \<Rightarrow> npfloat list \<Rightarrow> npfloat list \<Rightarrow> error + npfloat" where
  "r_squared rnd returns benchmark_returns =
     bind_result (broadcast (\<lambda>r b. \<not> (isnan r \<or> isnan b)) returns benchmark_returns) (\<lambda>valid.
       if count_true valid \<le> 1 then Inr NaN
       else
         bind_result (bool_index returns valid) (\<lambda>returns_valid.
         bind_result (bool_index benchmark_returns valid) (\<lambda>benchmark_valid.
         bind_result (np_corrcoef rnd returns_valid benchmark_valid) (\<lambda>c.
           let corr = c ! 0 ! 1
           in Inr (fpow rnd corr 2)))))"




section \<open>Notions of the specification\<close>

text \<open>The observations of a return series: its values without the missing months.\<close>

fun observed :: "real option list \<Rightarrow> real list" where
  "observed [] = []"
| "observed (None # rs) = observed rs"
| "observed (Some x # rs) = x # observed rs"

text \<open>
  The factor by which a month changes the level of the cumulated return; a missing month
  leaves the level as it is.
\<close>

definition growth :: "real option \<Rightarrow> real" where
  "growth r = 1 + (case r of None \<Rightarrow> 0 | Some x \<Rightarrow> x)"

text \<open>
  The usable pairs of a fund series and a benchmark series: the months in which both
  have an observation.
\<close>

fun usable_pairs :: "real option list \<Rightarrow> real option list \<Rightarrow> (real \<times> real) list" where
  "usable_pairs (Some f # fs) (Some b # bs) = (f, b) # usable_pairs fs bs"
| "usable_pairs (f # fs) (b # bs) = usable_pairs fs bs"
| "usable_pairs fs bs = []"

text \<open>Mean, sample covariance, sample variance and sample standard deviation, with
  the denominator \<open>n - 1\<close>.\<close>

definition mean :: "real list \<Rightarrow> real" where
  "mean xs = sum_list xs / real (length xs)"

definition sample_covariance :: "real list \<Rightarrow> real list \<Rightarrow> real" where
  "sample_covariance xs ys =
     (\<Sum>(x, y)\<leftarrow>zip xs ys. (x - mean xs) * (y - mean ys)) / (real (length xs) - 1)"

definition sample_variance :: "real list \<Rightarrow> real" where
  "sample_variance xs = (\<Sum>x\<leftarrow>xs. (x - mean xs)\<^sup>2) / (real (length xs) - 1)"

definition sample_std :: "real list \<Rightarrow> real" where
  "sample_std xs = sqrt (sample_variance xs)"

text \<open>
  Tracking error in the words of the specification: the sample standard deviation of the
  pairwise active returns (fund minus benchmark) times \<open>sqrt 12\<close>, undefined when at
  most one usable pair remains.
\<close>

definition spec_tracking_error :: "real option list \<Rightarrow> real option list \<Rightarrow> npfloat" where
  "spec_tracking_error fund benchmark =
     (let active = map (\<lambda>(f, b). f - b) (usable_pairs fund benchmark)
      in if length active \<le> 1 then NaN else Fin (sample_std active * sqrt 12))"

text \<open>
  Beta in the words of the specification: sample covariance divided by the sample
  variance of the benchmark, undefined when at most one usable pair remains or the
  variance is zero.
\<close>

definition spec_beta :: "real option list \<Rightarrow> real option list \<Rightarrow> npfloat" where
  "spec_beta fund benchmark =
     (let pairs = usable_pairs fund benchmark;
          fs = map fst pairs;
          bs = map snd pairs
      in if length pairs \<le> 1 \<or> sample_variance bs = 0 then NaN
         else Fin (sample_covariance fs bs / sample_variance bs))"

text \<open>A result that is one of the two infinities; an exception is not one.\<close>

definition infinite_result :: "error + npfloat \<Rightarrow> bool" where
  "infinite_result r = (case r of Inl e \<Rightarrow> False | Inr v \<Rightarrow> isinf v)"

text \<open>The double that the literal \<^verbatim>\<open>0.1\<close> denotes.\<close>

definition tenth :: real where
  "tenth = 3602879701896397 / 2 ^ 55"

section \<open>Exact arithmetic on arrays of finite values\<close>

lemma exact_id [simp]: "exact x = x"
  by (simp add: exact_def)

lemma fsub_Fin [simp]: "fsub rnd (Fin a) (Fin b) = Fin (rnd (a - b))"
  by (simp add: fsub_def)

lemma np_maximum_Fin [simp]: "np_maximum (Fin a) (Fin b) = Fin (max a b)"
  by (simp add: np_maximum_def max_def)

lemma filter_series: "filter (\<lambda>v. \<not> isnan v) (series rs) = map Fin (observed rs)"
  by (induction rs rule: observed.induct) (simp_all add: series_def)

lemma set_observed: "set (observed rs) = {x. Some x \<in> set rs}"
  by (induction rs rule: observed.induct) auto

lemma observed_nonempty: "observed rs \<noteq> [] \<longleftrightarrow> (\<exists>x. Some x \<in> set rs)"
proof -
  have "observed rs \<noteq> [] \<longleftrightarrow> set (observed rs) \<noteq> {}" by simp
  then show ?thesis by (auto simp: set_observed)
qed

lemma foldl_fadd_exact: "foldl (fadd exact) (Fin a) (map Fin xs) = Fin (a + sum_list xs)"
  by (induction xs arbitrary: a) (simp_all add: add.assoc)

lemma np_sum_exact: "np_sum exact (map Fin xs) = Fin (sum_list xs)"
  by (cases xs) (simp_all add: np_sum_def foldl_fadd_exact)

lemma foldl_fadd_zero:
  assumes "rnd 0 = 0"
  shows "foldl (fadd rnd) (Fin 0) (replicate n (Fin 0)) = Fin 0"
  using assms by (induction n) simp_all

lemma np_sum_zero:
  assumes "rnd 0 = 0"
  shows "np_sum rnd (replicate n (Fin 0)) = Fin 0"
  using assms by (cases n) (simp_all add: np_sum_def foldl_fadd_zero)

section \<open>Omega ratio\<close>

lemma omega_ratio_exact:
  "omega_ratio exact (series rs) (Fin t) =
     (if observed rs = [] then NaN
      else if (\<Sum>x\<leftarrow>observed rs. max (t - x) 0) = 0 then Fin 1000
      else Fin ((\<Sum>x\<leftarrow>observed rs. max (x - t) 0) / (\<Sum>x\<leftarrow>observed rs. max (t - x) 0)))"
proof -
  have g: "map (\<lambda>r. np_maximum (fsub exact r (Fin t)) (Fin 0)) (map Fin xs)
         = map Fin (map (\<lambda>x. max (x - t) 0) xs)" for xs by simp
  have l: "map (\<lambda>r. np_maximum (fsub exact (Fin t) r) (Fin 0)) (map Fin xs)
         = map Fin (map (\<lambda>x. max (t - x) 0) xs)" for xs by simp
  show ?thesis
    unfolding omega_ratio_def filter_series Let_def g l np_sum_exact
    by (simp add: feq_def)
qed

lemma sum_list_max_nonneg: "0 \<le> (\<Sum>x\<leftarrow>xs. max (a x) (0::real))"
  by (rule sum_list_nonneg) auto

text \<open>
  C1, as the claim states it, fails: with the returns 1/2 and -1/4096 the threshold
  -1/4096 leaves no loss, so the ratio is the sentinel 1000, while at the larger
  threshold 0 the ratio is 2048.
\<close>

theorem omega_ratio_sentinel_below_ratio:
  "omega_ratio exact [Fin (1 / 2), Fin (- (1 / 4096))] (Fin (- (1 / 4096))) = Fin 1000
   \<and> omega_ratio exact [Fin (1 / 2), Fin (- (1 / 4096))] (Fin 0) = Fin 2048
   \<and> \<not> fle (omega_ratio exact [Fin (1 / 2), Fin (- (1 / 4096))] (Fin 0))
           (omega_ratio exact [Fin (1 / 2), Fin (- (1 / 4096))] (Fin (- (1 / 4096))))"
  by (simp add: omega_ratio_def np_sum_def feq_def)

text \<open>
  C1, amended: for a series with at least one observation and thresholds \<open>t1 \<le> t2\<close>,
  in exact arithmetic, the Omega ratio at \<open>t1\<close> is at least the Omega ratio at \<open>t2\<close>,
  except when the ratio at \<open>t1\<close> is 1000 and the ratio at \<open>t2\<close> is larger than 1000
  (which happens only when 1000 is the sentinel of a zero loss sum at \<open>t1\<close>).
\<close>

theorem omega_ratio_monotone:
  assumes "t1 \<le> t2" and "\<exists>x. Some x \<in> set rs"
    and "\<not> (omega_ratio exact (series rs) (Fin t1) = Fin 1000
            \<and> flt (Fin 1000) (omega_ratio exact (series rs) (Fin t2)))"
  shows "fle (omega_ratio exact (series rs) (Fin t2)) (omega_ratio exact (series rs) (Fin t1))"
proof -
  define xs where "xs = observed rs"
  define G where "G t = (\<Sum>x\<leftarrow>xs. max (x - t) 0)" for t
  define L where "L t = (\<Sum>x\<leftarrow>xs. max (t - x) 0)" for t
  have ne: "xs \<noteq> []" using assms(2) by (simp add: xs_def observed_nonempty)
  have om: "omega_ratio exact (series rs) (Fin t) = (if L t = 0 then Fin 1000 else Fin (G t / L t))" for t
    using ne by (simp add: omega_ratio_exact xs_def G_def L_def)
  have G0: "0 \<le> G t" for t unfolding G_def by (rule sum_list_max_nonneg)
  have L0: "0 \<le> L t" for t unfolding L_def by (rule sum_list_max_nonneg)
  have Gm: "G t2 \<le> G t1" unfolding G_def using assms(1) by (intro sum_list_mono) auto
  have Lm: "L t1 \<le> L t2" unfolding L_def using assms(1) by (intro sum_list_mono) auto
  show ?thesis
  proof (cases "L t1 = 0")
    case True
    then have "\<not> flt (Fin 1000) (omega_ratio exact (series rs) (Fin t2))"
      using assms(3) by (simp add: om)
    then show ?thesis using True by (auto simp: om flt_def split: if_splits)
  next
    case False
    then have p1: "0 < L t1" using L0 [of t1] by simp
    then have p2: "0 < L t2" using Lm by simp
    have "G t2 / L t2 \<le> G t1 / L t1"
      by (rule frac_le [OF G0 Gm p1 Lm])
    then show ?thesis using p1 p2 by (simp add: om)
  qed
qed

theorem omega_ratio_monotone_witness:
  "(0::real) \<le> 1 \<and> (\<exists>x. Some x \<in> set [Some (2::real), Some (- 1)])
   \<and> \<not> (omega_ratio exact (series [Some 2, Some (- 1)]) (Fin 0) = Fin 1000
          \<and> flt (Fin 1000) (omega_ratio exact (series [Some 2, Some (- 1)]) (Fin 1)))
   \<and> fle (omega_ratio exact (series [Some 2, Some (- 1)]) (Fin 1))
         (omega_ratio exact (series [Some 2, Some (- 1)]) (Fin 0))"
proof -
  have a: "omega_ratio exact (series [Some 2, Some (- 1)]) (Fin 0) = Fin 2"
    by (simp add: omega_ratio_def series_def np_sum_def feq_def)
  have h: "\<exists>x. Some x \<in> set [Some (2::real), Some (- 1)]" by auto
  show ?thesis
    using omega_ratio_monotone [of 0 1 "[Some 2, Some (- 1)]"] h by (simp add: a)
qed

lemma filter_constant:
  assumes "set rs \<subseteq> {None, Some t}"
  shows "filter (\<lambda>v. \<not> isnan v) (series rs) = replicate (length (observed rs)) (Fin t)"
  using assms by (induction rs rule: observed.induct) (simp_all add: series_def)

text \<open>
  C9, as the claim states it, fails: the series of one missing month is not empty and
  has no observation that differs from the threshold, and its Omega ratio is NaN, since
  the check for an empty sample comes after the missing months are removed.
\<close>

theorem omega_ratio_all_missing: "omega_ratio exact [NaN] (Fin 0) = NaN"
  by (simp add: omega_ratio_def)

text \<open>
  C9, amended: for a series with at least one observation whose observations all equal
  the threshold, the Omega ratio is the sentinel 1000, in every arithmetic whose
  rounding keeps zero: the zero-loss branch comes before the division, also when the
  gains are zero.
\<close>

theorem omega_ratio_all_at_threshold:
  assumes "rnd 0 = 0" and "set rs \<subseteq> {None, Some t}" and "Some t \<in> set rs"
  shows "omega_ratio rnd (series rs) (Fin t) = Fin 1000"
proof -
  have "observed rs \<noteq> []"
    using assms(3) by (auto simp: observed_nonempty)
  then have n: "length (observed rs) \<noteq> 0" by simp
  show ?thesis
    using assms(1) n
    by (simp add: omega_ratio_def filter_constant [OF assms(2)] Let_def map_replicate_const
        np_sum_zero feq_def)
qed

theorem omega_ratio_all_at_threshold_witness:
  "exact 0 = 0 \<and> set [Some (1 / 100), None] \<subseteq> {None, Some (1 / 100)}
   \<and> Some (1 / 100) \<in> set [Some (1 / 100 :: real), None]
   \<and> omega_ratio exact (series [Some (1 / 100), None]) (Fin (1 / 100)) = Fin 1000"
  using omega_ratio_all_at_threshold [of exact "[Some (1 / 100), None]" "1 / 100"] by simp

section \<open>Annualized return\<close>

lemma foldl_fmul_exact: "foldl (fmul exact) (Fin a) (map Fin xs) = Fin (a * prod_list xs)"
  by (induction xs arbitrary: a) (simp_all add: mult.assoc)

lemma np_prod_exact: "np_prod exact (map Fin xs) = Fin (prod_list xs)"
  by (cases xs) (simp_all add: np_prod_def foldl_fmul_exact)

lemma fpow_exact_one: "fpow exact (Fin c) 1 = Fin c"
  by (simp add: is_integer_def)

lemma series_replicate: "series (replicate n (Some r)) = replicate n (Fin r)"
  by (simp add: series_def)

text \<open>
  C7: for the series of twelve months with the same return \<open>r\<close> and no missing month,
  the annualized return is \<open>(1 + r) ^ 12 - 1\<close>; in exact arithmetic the two are equal,
  the exponent \<open>12 / 12\<close> being 1.
\<close>

theorem annualized_return_one_year:
  "annualized_return exact (series (replicate 12 (Some r))) = Fin ((1 + r) ^ 12 - 1)"
proof -
  have m: "map (fadd exact (Fin 1)) (replicate 12 (Fin r)) = map Fin (replicate 12 (1 + r))"
    by simp
  show ?thesis
    unfolding annualized_return_def series_replicate Let_def
    apply (simp only: filter_replicate isnan.simps not_False_eq_True if_True length_replicate m np_prod_exact)
    apply (simp add: fpow_exact_one)
    done
qed


section \<open>Maximum drawdown\<close>

lemma accumulate_from_map:
  assumes "\<And>a b. f' (g a) (g b) = g (f a b)"
  shows "accumulate_from f' (g a) (map g xs) = map g (accumulate_from f a xs)"
  using assms by (induction xs arbitrary: a) simp_all

lemma accumulate_map:
  assumes "\<And>a b. f' (g a) (g b) = g (f a b)"
  shows "accumulate f' (map g xs) = map g (accumulate f xs)"
  using assms by (cases xs) (simp_all add: accumulate_def accumulate_from_map)

lemma length_accumulate_from [simp]: "length (accumulate_from f a xs) = length xs"
  by (induction xs arbitrary: a) simp_all

lemma length_accumulate [simp]: "length (accumulate f xs) = length xs"
  by (cases xs) (simp_all add: accumulate_def)

lemma accumulate_Nil_iff [simp]: "accumulate f xs = [] \<longleftrightarrow> xs = []"
  by (cases xs) (simp_all add: accumulate_def)

lemma growth_series:
  "map (\<lambda>v. fadd exact (Fin 1) (np_nan_to_num v)) (series rs) = map Fin (map growth rs)"
  by (induction rs rule: observed.induct) (simp_all add: series_def growth_def)

lemma all_missing: "list_all isnan (series rs) \<longleftrightarrow> observed rs = []"
  by (induction rs rule: observed.induct) (simp_all add: series_def)

lemma drawdowns_exact:
  "maximum_drawdown exact (series rs) =
     (if observed rs = [] then Inr NaN
      else np_nanmax (map2 (\<lambda>c m. fsub exact (Fin 1) (fdiv exact (Fin c) (Fin m)))
             (accumulate (*) (map growth rs)) (accumulate max (accumulate (*) (map growth rs)))))"
proof -
  have c: "np_cumprod exact (map Fin fs) = map Fin (accumulate (*) fs)" for fs
    unfolding np_cumprod_def by (rule accumulate_map) simp
  have m: "np_maximum_accumulate (map Fin cs) = map Fin (accumulate max cs)" for cs
    unfolding np_maximum_accumulate_def by (rule accumulate_map) simp
  show ?thesis
    unfolding maximum_drawdown_def all_missing growth_series Let_def c m
    by (simp add: zip_map_map case_prod_unfold comp_def del: fdiv.simps)
qed

lemma accumulate_from_pos:
  assumes "\<forall>f\<in>set fs. 0 < f" and "0 < (a::real)"
  shows "\<forall>c\<in>set (accumulate_from (*) a fs). 0 < c"
  using assms
proof (induction fs arbitrary: a)
  case Nil
  then show ?case by simp
next
  case (Cons f fs)
  have p: "0 < a * f" using Cons.prems by simp
  have "\<forall>c\<in>set (accumulate_from (*) (a * f) fs). 0 < c"
    using Cons.IH [OF _ p] Cons.prems(1) by simp
  then show ?case using p by simp
qed

lemma accumulate_pos:
  assumes "\<forall>f\<in>set fs. 0 < (f::real)"
  shows "\<forall>c\<in>set (accumulate (*) fs). 0 < c"
proof (cases fs)
  case Nil
  then show ?thesis by (simp add: accumulate_def)
next
  case (Cons f rest)
  have "\<forall>c\<in>set (accumulate_from (*) f rest). 0 < c"
    using assms Cons by (intro accumulate_from_pos) simp_all
  then show ?thesis using assms Cons by (simp add: accumulate_def)
qed

lemma running_max_from_bounds:
  assumes "\<forall>c\<in>set cs. 0 < c" and "0 < (b::real)"
  shows "\<forall>(c, m)\<in>set (zip cs (accumulate_from max b cs)). c \<le> m \<and> 0 < m"
  using assms
proof (induction cs arbitrary: b)
  case Nil
  then show ?case by simp
next
  case (Cons c cs)
  have p: "0 < max b c" using Cons.prems by simp
  have "\<forall>(c, m)\<in>set (zip cs (accumulate_from max (max b c) cs)). c \<le> m \<and> 0 < m"
    using Cons.IH [OF _ p] Cons.prems(1) by simp
  then show ?case using p by simp
qed

lemma running_max_bounds:
  assumes "\<forall>c\<in>set cs. 0 < (c::real)"
  shows "\<forall>(c, m)\<in>set (zip cs (accumulate max cs)). c \<le> m \<and> 0 < m"
proof (cases cs)
  case Nil
  then show ?thesis by (simp add: accumulate_def)
next
  case (Cons c rest)
  have "\<forall>(c, m)\<in>set (zip rest (accumulate_from max c rest)). c \<le> m \<and> 0 < m"
    using assms Cons by (intro running_max_from_bounds) simp_all
  then show ?thesis using assms Cons by (simp add: accumulate_def)
qed

lemma foldl_fmax_range:
  assumes "\<forall>x\<in>set xs. \<exists>d. x = Fin d \<and> lo \<le> d \<and> d \<le> hi" and "lo \<le> a" and "a \<le> hi"
  shows "\<exists>d. foldl np_fmax (Fin a) xs = Fin d \<and> lo \<le> d \<and> d \<le> hi"
  using assms
proof (induction xs arbitrary: a)
  case Nil
  then show ?case by simp
next
  case (Cons x xs)
  then obtain d where d: "x = Fin d" "lo \<le> d" "d \<le> hi" by auto
  have "np_fmax (Fin a) x = Fin (max a d)" by (simp add: d np_fmax_def max_def)
  moreover have "lo \<le> max a d" "max a d \<le> hi" using Cons.prems d by auto
  ultimately show ?case using Cons.IH [of "max a d"] Cons.prems(1) by simp
qed

lemma np_nanmax_range:
  assumes "xs \<noteq> []" and "\<forall>x\<in>set xs. \<exists>d. x = Fin d \<and> lo \<le> d \<and> d \<le> hi"
  shows "\<exists>d. np_nanmax xs = Inr (Fin d) \<and> lo \<le> d \<and> d \<le> hi"
proof (cases xs)
  case Nil
  with assms show ?thesis by simp
next
  case (Cons x rest)
  then obtain a where a: "x = Fin a" "lo \<le> a" "a \<le> hi" using assms(2) by auto
  have "\<forall>x\<in>set rest. \<exists>d. x = Fin d \<and> lo \<le> d \<and> d \<le> hi" using assms(2) Cons by simp
  from foldl_fmax_range [OF this a(2,3)] show ?thesis
    by (simp add: np_nanmax_def Cons a)
qed

lemma growth_pos:
  assumes "\<forall>x. Some x \<in> set rs \<longrightarrow> - 1 < x"
  shows "\<forall>f\<in>set (map growth rs). 0 < f"
proof
  fix f assume "f \<in> set (map growth rs)"
  then obtain r where r: "r \<in> set rs" "f = growth r" by auto
  show "0 < f"
  proof (cases r)
    case None
    then show ?thesis by (simp add: r growth_def)
  next
    case (Some x)
    then have "- 1 < x" using assms r by simp
    then show ?thesis by (simp add: r Some growth_def)
  qed
qed

lemma maximum_drawdown_range:
  assumes "\<exists>x. Some x \<in> set rs" and "\<forall>x. Some x \<in> set rs \<longrightarrow> - 1 < x"
  shows "\<exists>d. maximum_drawdown exact (series rs) = Inr (Fin d) \<and> 0 \<le> d \<and> d \<le> 1"
proof -
  define cs where "cs = accumulate (*) (map growth rs)"
  define ms where "ms = accumulate max cs"
  have ne: "observed rs \<noteq> []" using assms(1) by (simp add: observed_nonempty)
  then have rs: "rs \<noteq> []" by auto
  have pos: "\<forall>c\<in>set cs. 0 < c"
    unfolding cs_def by (rule accumulate_pos [OF growth_pos [OF assms(2)]])
  have b: "\<forall>(c, m)\<in>set (zip cs ms). c \<le> m \<and> 0 < m"
    unfolding ms_def by (rule running_max_bounds [OF pos])
  have el: "\<forall>x\<in>set (map2 (\<lambda>c m. fsub exact (Fin 1) (fdiv exact (Fin c) (Fin m))) cs ms).
              \<exists>d. x = Fin d \<and> 0 \<le> d \<and> d \<le> 1"
  proof
    fix x assume "x \<in> set (map2 (\<lambda>c m. fsub exact (Fin 1) (fdiv exact (Fin c) (Fin m))) cs ms)"
    then obtain c m where cm: "(c, m) \<in> set (zip cs ms)"
      "x = fsub exact (Fin 1) (fdiv exact (Fin c) (Fin m))" by auto
    have "0 < c" using cm(1) pos by (auto dest: set_zip_leftD)
    moreover have "c \<le> m" "0 < m" using b cm(1) by auto
    ultimately show "\<exists>d. x = Fin d \<and> 0 \<le> d \<and> d \<le> 1"
      by (simp add: cm(2))
  qed
  have "map2 (\<lambda>c m. fsub exact (Fin 1) (fdiv exact (Fin c) (Fin m))) cs ms \<noteq> []"
    using rs by (simp add: cs_def ms_def)
  from np_nanmax_range [OF this el] show ?thesis
    using ne by (simp add: drawdowns_exact cs_def ms_def)
qed


lemma accumulate_from_sorted:
  assumes "\<forall>f\<in>set fs. 1 \<le> f" and "0 < (a::real)"
  shows "sorted (a # accumulate_from (*) a fs) \<and> (\<forall>c\<in>set (accumulate_from (*) a fs). 0 < c)"
  using assms
proof (induction fs arbitrary: a)
  case Nil
  then show ?case by simp
next
  case (Cons f fs)
  have f: "1 \<le> f" using Cons.prems by simp
  then have le: "a \<le> a * f" using Cons.prems(2) by simp
  then have p: "0 < a * f" using Cons.prems(2) by simp
  have ih: "sorted (a * f # accumulate_from (*) (a * f) fs)
            \<and> (\<forall>c\<in>set (accumulate_from (*) (a * f) fs). 0 < c)"
    using Cons.IH [OF _ p] Cons.prems(1) by simp
  then have "\<forall>c\<in>set (accumulate_from (*) (a * f) fs). a \<le> c" using le by auto
  then show ?case using ih le p by simp
qed

lemma running_max_sorted:
  assumes "sorted (b # cs)"
  shows "accumulate_from max b cs = (cs :: real list)"
  using assms
proof (induction cs arbitrary: b)
  case Nil
  then show ?case by simp
next
  case (Cons c cs)
  then have "max b c = c" by simp
  then show ?case using Cons by simp
qed

lemma maximum_drawdown_zero:
  assumes "\<exists>x. Some x \<in> set rs" and "\<forall>x. Some x \<in> set rs \<longrightarrow> 0 \<le> x"
  shows "maximum_drawdown exact (series rs) = Inr (Fin 0)"
proof -
  define cs where "cs = accumulate (*) (map growth rs)"
  have ne: "observed rs \<noteq> []" using assms(1) by (simp add: observed_nonempty)
  then obtain r rest where rs: "rs = r # rest" by (cases rs) auto
  have g: "\<forall>f\<in>set (map growth rs). 1 \<le> f"
  proof
    fix f assume "f \<in> set (map growth rs)"
    then obtain r where r: "r \<in> set rs" "f = growth r" by auto
    show "1 \<le> f" using assms(2) r by (cases r) (simp_all add: growth_def)
  qed
  then have g0: "0 < growth r" by (simp add: rs)
  have s: "sorted (growth r # accumulate_from (*) (growth r) (map growth rest))"
    and pos: "\<forall>c\<in>set (accumulate_from (*) (growth r) (map growth rest)). 0 < c"
    using accumulate_from_sorted [of "map growth rest" "growth r"] g g0 by (simp_all add: rs)
  have cs: "cs = growth r # accumulate_from (*) (growth r) (map growth rest)"
    by (simp add: cs_def rs accumulate_def)
  have ms: "accumulate max cs = cs"
    by (simp add: cs accumulate_def running_max_sorted [OF s])
  have cpos: "\<forall>c\<in>set cs. 0 < c" using pos g0 by (simp add: cs)
  have el: "\<forall>x\<in>set (map2 (\<lambda>c m. fsub exact (Fin 1) (fdiv exact (Fin c) (Fin m))) cs cs).
              \<exists>d. x = Fin d \<and> 0 \<le> d \<and> d \<le> 0"
  proof
    fix x assume "x \<in> set (map2 (\<lambda>c m. fsub exact (Fin 1) (fdiv exact (Fin c) (Fin m))) cs cs)"
    then obtain c where "c \<in> set cs" "x = fsub exact (Fin 1) (fdiv exact (Fin c) (Fin c))"
      by (auto simp: zip_same)
    then show "\<exists>d. x = Fin d \<and> 0 \<le> d \<and> d \<le> 0" using cpos by auto
  qed
  have "map2 (\<lambda>c m. fsub exact (Fin 1) (fdiv exact (Fin c) (Fin m))) cs cs \<noteq> []"
    by (simp add: cs)
  from np_nanmax_range [OF this el] show ?thesis
    using ne by (auto simp: drawdowns_exact cs_def [symmetric] ms)
qed

text \<open>
  C2, as the claim states it, fails for returns of -100 % or less: after the months 0
  and -2 the level is -1 below a peak of 1, a drawdown of 2; and a first month of -1
  makes level and peak 0, whose quotient is NaN.
\<close>

theorem maximum_drawdown_outside_unit_interval:
  "maximum_drawdown exact [Fin 0, Fin (- 2)] = Inr (Fin 2)
   \<and> maximum_drawdown exact [Fin (- 1)] = Inr NaN"
  by (simp add: maximum_drawdown_def np_cumprod_def np_maximum_accumulate_def accumulate_def
      np_nanmax_def np_fmax_def fsub_def)

text \<open>
  C2, amended: for a series that has an observation and whose observations are all
  larger than -1, in exact arithmetic, the maximum drawdown is a value between 0 and 1,
  and it is 0 when every observation is at least 0. A missing month counts as a return
  of 0 on the path.
\<close>

theorem maximum_drawdown_bounds:
  assumes "observed rs \<noteq> []" and "list_all (\<lambda>x. - 1 < x) (observed rs)"
  shows "\<exists>d. maximum_drawdown exact (series rs) = Inr (Fin d) \<and> 0 \<le> d \<and> d \<le> 1
           \<and> (list_all (\<lambda>x. 0 \<le> x) (observed rs) \<longrightarrow> d = 0)"
proof -
  have ne: "\<exists>x. Some x \<in> set rs" using assms(1) by (simp add: observed_nonempty)
  have lo: "\<forall>x. Some x \<in> set rs \<longrightarrow> - 1 < x"
    using assms(2) by (simp add: list_all_iff set_observed)
  obtain d where d: "maximum_drawdown exact (series rs) = Inr (Fin d)" "0 \<le> d" "d \<le> 1"
    using maximum_drawdown_range [OF ne lo] by blast
  have "d = 0" if "list_all (\<lambda>x. 0 \<le> x) (observed rs)"
  proof -
    have "\<forall>x. Some x \<in> set rs \<longrightarrow> 0 \<le> x"
      using that by (simp add: list_all_iff set_observed)
    from maximum_drawdown_zero [OF ne this] d(1) show ?thesis by simp
  qed
  then show ?thesis using d by blast
qed

theorem maximum_drawdown_bounds_witness:
  "observed [Some (1 / 100), None, Some (1 / 50)] \<noteq> []
   \<and> list_all (\<lambda>x. - 1 < x) (observed [Some (1 / 100), None, Some (1 / 50)])
   \<and> list_all (\<lambda>x. 0 \<le> x) (observed [Some (1 / 100), None, Some (1 / 50)])
   \<and> maximum_drawdown exact (series [Some (1 / 100), None, Some (1 / 50)]) = Inr (Fin 0)"
  using maximum_drawdown_bounds [of "[Some (1 / 100), None, Some (1 / 50)]"] by simp

section \<open>Tracking error\<close>

lemma fneg_fneg [simp]: "fneg (fneg v) = v" by (cases v) simp_all
lemma isnan_fneg [simp]: "isnan (fneg v) = isnan v" by (cases v) simp_all

lemma fadd_commute: "fadd rnd a b = fadd rnd b a"
  by (cases a; cases b) (simp_all add: add.commute)

lemma fadd_fneg:
  assumes "\<forall>x. rnd (- x) = - rnd x"
  shows "fadd rnd (fneg a) (fneg b) = fneg (fadd rnd a b)"
proof -
  have r: "rnd (- x - y) = - rnd (x + y)" for x y
    using assms [rule_format, of "x + y"] by simp
  show ?thesis by (cases a; cases b) (simp_all add: r)
qed

lemma fsub_swap:
  assumes "\<forall>x. rnd (- x) = - rnd x"
  shows "fsub rnd b a = fneg (fsub rnd a b)"
  unfolding fsub_def using fadd_fneg [OF assms, of a "fneg b"] by (simp add: fadd_commute)

lemma foldl_fadd_fneg:
  assumes "\<forall>x. rnd (- x) = - rnd x"
  shows "foldl (fadd rnd) (fneg a) (map fneg xs) = fneg (foldl (fadd rnd) a xs)"
  by (induction xs arbitrary: a) (simp_all add: fadd_fneg [OF assms])

lemma np_sum_fneg:
  assumes "\<forall>x. rnd (- x) = - rnd x"
  shows "np_sum rnd (map fneg xs) = fneg (np_sum rnd xs)"
proof (cases xs)
  case Nil
  then show ?thesis by (simp add: np_sum_def)
next
  case (Cons x rest)
  then show ?thesis by (simp add: np_sum_def foldl_fadd_fneg [OF assms])
qed

lemma fdiv_fneg:
  assumes "\<forall>x. rnd (- x) = - rnd x"
  shows "fdiv rnd (fneg a) (Fin n) = fneg (fdiv rnd a (Fin n))"
proof -
  have r: "rnd (- (x / n)) = - rnd (x / n)" for x
    using assms by simp
  show ?thesis by (cases a) (auto simp: signed_inf_def r)
qed

lemma fmul_fneg_same:
  "fmul rnd (fneg a) (fneg a) = fmul rnd a a"
  by (cases a) (simp_all)

lemma np_var_fneg:
  assumes "\<forall>x. rnd (- x) = - rnd x"
  shows "np_var rnd (map fneg xs) ddof = np_var rnd xs ddof"
proof -
  have d: "fsub rnd (fneg v) (fneg m) = fneg (fsub rnd v m)" for v m
    using fadd_fneg [OF assms, of v "fneg m"] by (simp add: fsub_def)
  have e: "fmul rnd (fsub rnd (fneg v) (fneg m)) (fsub rnd (fneg v) (fneg m))
         = fmul rnd (fsub rnd v m) (fsub rnd v m)" for v m
    by (simp only: d fmul_fneg_same)
  show ?thesis
    by (simp add: np_var_def Let_def np_sum_fneg [OF assms] fdiv_fneg [OF assms] comp_def e)
qed

lemma broadcast_fsub_swap:
  assumes "\<forall>x. rnd (- x) = - rnd x"
  shows "broadcast (fsub rnd) ys xs = map_sum id (map fneg) (broadcast (fsub rnd) xs ys)"
proof -
  have s2: "(\<lambda>a b. fsub rnd b a) = (\<lambda>a b. fneg (fsub rnd a b))"
    by (intro ext) (rule fsub_swap [OF assms])
  have s1: "(\<lambda>b. fsub rnd b a) = (\<lambda>b. fneg (fsub rnd a b))" for a
    by (intro ext) (rule fsub_swap [OF assms])
  have s0: "fsub rnd b = (\<lambda>a. fneg (fsub rnd a b))" for b
    by (intro ext) (rule fsub_swap [OF assms])
  have a: "map2 (fsub rnd) ys xs = map fneg (map2 (fsub rnd) xs ys)"
  proof -
    have "map2 (fsub rnd) ys xs = map2 (\<lambda>a b. fsub rnd b a) xs ys"
      by (subst zip_commute) (simp add: case_prod_unfold comp_def)
    also have "\<dots> = map2 (\<lambda>a b. fneg (fsub rnd a b)) xs ys"
      by (simp only: s2)
    finally show ?thesis by (simp add: case_prod_unfold comp_def)
  qed
  have b: "map (\<lambda>y. fsub rnd y x) ys = map fneg (map (fsub rnd x) ys)" for x
    by (simp only: s1) (simp add: comp_def)
  have c: "map (fsub rnd y) xs = map fneg (map (\<lambda>x. fsub rnd x y) xs)" for y
    by (subst s0) (simp add: comp_def)
  show ?thesis
    unfolding broadcast_def using a b c by auto
qed

text \<open>
  C10: the tracking error is symmetric in its two arguments, for arrays of any lengths
  and contents, in every arithmetic whose rounding commutes with negation (exact
  arithmetic does, and so does rounding to nearest): the active returns change sign,
  which the squared deviations do not see, and a length mismatch raises on both sides.
\<close>

theorem tracking_error_symmetric:
  assumes "\<forall>x. rnd (- x) = - rnd x"
  shows "tracking_error rnd returns benchmark_returns = tracking_error rnd benchmark_returns returns"
proof -
  have sw: "broadcast (fsub rnd) benchmark_returns returns
      = map_sum id (map fneg) (broadcast (fsub rnd) returns benchmark_returns)"
    by (rule broadcast_fsub_swap [OF assms])
  show ?thesis
  proof (cases "broadcast (fsub rnd) returns benchmark_returns")
    case (Inl e)
    then show ?thesis
      by (simp add: tracking_error_def bind_result_def sw)
  next
    case (Inr a)
    have f: "filter (\<lambda>v. \<not> isnan v) (map fneg a) = map fneg (filter (\<lambda>v. \<not> isnan v) a)"
      by (simp add: filter_map comp_def)
    show ?thesis
      by (simp add: tracking_error_def bind_result_def sw Inr f Let_def np_std_def
          np_var_fneg [OF assms])
  qed
qed

theorem tracking_error_symmetric_witness:
  "(\<forall>x. exact (- x) = - exact x)
   \<and> tracking_error exact [Fin 1, NaN, Fin 3] [Fin 2, Fin 2, Fin 5]
       = tracking_error exact [Fin 2, Fin 2, Fin 5] [Fin 1, NaN, Fin 3]"
proof -
  have h: "\<forall>x. exact (- x) = - exact x" by simp
  show ?thesis
    using tracking_error_symmetric [OF h, of "[Fin 1, NaN, Fin 3]" "[Fin 2, Fin 2, Fin 5]"] h
    by blast
qed

lemma active_returns_exact:
  "filter (\<lambda>v. \<not> isnan v) (map2 (fsub exact) (series fs) (series bs))
     = map Fin (map (\<lambda>(f, b). f - b) (usable_pairs fs bs))"
  by (induction fs bs rule: usable_pairs.induct)
    (simp_all add: series_def fsub_def split: option.splits)

lemma sample_variance_nonneg:
  assumes "2 \<le> length xs"
  shows "0 \<le> sample_variance xs"
proof -
  have "0 \<le> (\<Sum>x\<leftarrow>xs. (x - mean xs)\<^sup>2)" by (rule sum_list_nonneg) auto
  moreover have "0 < real (length xs) - 1" using assms by simp
  ultimately show ?thesis by (simp add: sample_variance_def)
qed

lemma np_var_exact:
  assumes "2 \<le> length xs"
  shows "np_var exact (map Fin xs) 1 = Fin (sample_variance xs)"
proof -
  have n: "real (length xs) \<noteq> 0" using assms by auto
  have m: "fdiv exact (np_sum exact (map Fin xs)) (Fin (real_of_int (int (length xs)))) = Fin (mean xs)"
    using n by (simp add: np_sum_exact mean_def)
  have sq: "map (\<lambda>v. fmul exact v v) (map (\<lambda>v. fsub exact v (Fin (mean xs))) (map Fin xs))
          = map Fin (map (\<lambda>x. (x - mean xs)\<^sup>2) xs)"
    by (simp add: power2_eq_square)
  have r: "real_of_int (max (int (length xs) - 1) 0) = real (length xs) - 1"
    using assms by simp
  have r0: "real (length xs) - 1 \<noteq> 0" using assms by simp
  have "np_var exact (map Fin xs) 1
      = fdiv exact (np_sum exact (map Fin (map (\<lambda>x. (x - mean xs)\<^sup>2) xs)))
          (Fin (real (length xs) - 1))"
    by (simp only: np_var_def Let_def length_map m sq r)
  also have "\<dots> = Fin (sample_variance xs)"
    using r0 by (simp only: np_sum_exact sample_variance_def fdiv.simps exact_def if_False)
  finally show ?thesis .
qed

lemma np_std_exact:
  assumes "2 \<le> length xs"
  shows "np_std exact (map Fin xs) 1 = Fin (sample_std xs)"
  using sample_variance_nonneg [OF assms]
  by (simp add: np_std_def np_var_exact [OF assms] sample_std_def)

text \<open>
  C4: for a fund and a benchmark series of one length, in exact arithmetic, the tracking
  error is the sample standard deviation (denominator \<open>n - 1\<close>) of the active returns
  of the usable pairs, times \<open>sqrt 12\<close>; a month in which either series is missing is
  in no pair; with at most one usable pair the result is NaN.
\<close>

theorem tracking_error_refines:
  assumes "length fund = length benchmark"
  shows "tracking_error exact (series fund) (series benchmark)
           = Inr (spec_tracking_error fund benchmark)"
proof -
  define active where "active = map (\<lambda>(f, b). f - b) (usable_pairs fund benchmark)"
  have b: "broadcast (fsub exact) (series fund) (series benchmark)
         = Inr (map2 (fsub exact) (series fund) (series benchmark))"
    using assms by (simp add: broadcast_def series_def)
  have te: "tracking_error exact (series fund) (series benchmark)
      = (if length active \<le> 1 then Inr NaN
         else Inr (fmul exact (np_std exact (map Fin active) 1) (fsqrt exact (Fin 12))))"
    unfolding tracking_error_def b bind_result_def
    by (simp add: active_returns_exact active_def Let_def)
  show ?thesis
  proof (cases "length active \<le> 1")
    case True
    then show ?thesis by (simp add: te spec_tracking_error_def active_def [symmetric])
  next
    case False
    then have "2 \<le> length active" by simp
    from np_std_exact [OF this] False show ?thesis
      by (simp add: te spec_tracking_error_def active_def [symmetric])
  qed
qed

theorem tracking_error_refines_witness:
  "length [Some 3, None, Some 1, Some 2] = length [Some 1, Some 1, Some (1::real), None]
   \<and> tracking_error exact (series [Some 3, None, Some 1, Some 2]) (series [Some 1, Some 1, Some 1, None])
       = Inr (spec_tracking_error [Some 3, None, Some 1, Some 2] [Some 1, Some 1, Some 1, None])
   \<and> spec_tracking_error [Some 3, None, Some 1, Some 2] [Some 1, Some 1, Some 1, None]
       = Fin (sqrt 2 * sqrt 12)"
proof -
  have v: "spec_tracking_error [Some 3, None, Some 1, Some 2] [Some 1, Some 1, Some 1, None]
       = Fin (sqrt 2 * sqrt 12)"
    by (simp add: spec_tracking_error_def sample_std_def sample_variance_def mean_def)
  show ?thesis
    using tracking_error_refines [of "[Some 3, None, Some 1, Some 2]" "[Some 1, Some 1, Some 1, None]"] v
    by simp
qed

section \<open>Beta\<close>

lemma valid_pairs:
  assumes "length fs = length bs"
  shows "count_true (map2 (\<lambda>r b. \<not> (isnan r \<or> isnan b)) (series fs) (series bs))
           = length (usable_pairs fs bs)"
    and "map fst (filter snd (zip (series fs) (map2 (\<lambda>r b. \<not> (isnan r \<or> isnan b)) (series fs) (series bs))))
           = map Fin (map fst (usable_pairs fs bs))"
    and "map fst (filter snd (zip (series bs) (map2 (\<lambda>r b. \<not> (isnan r \<or> isnan b)) (series fs) (series bs))))
           = map Fin (map snd (usable_pairs fs bs))"
  using assms
  by (induction fs bs rule: usable_pairs.induct)
    (simp_all add: series_def count_true_def split: option.splits)

lemma centre_exact:
  assumes "xs \<noteq> []"
  shows "centre exact (map Fin xs) = map Fin (map (\<lambda>x. x - mean xs) xs)"
  using assms by (simp add: centre_def np_sum_exact mean_def)

lemma np_dot_exact:
  "np_dot exact (map Fin us) (map Fin vs) = Fin (\<Sum>(u, v)\<leftarrow>zip us vs. u * v)"
proof -
  have "map2 (fmul exact) (map Fin us) (map Fin vs) = map Fin (map (\<lambda>(u, v). u * v) (zip us vs))"
    by (simp add: zip_map_map case_prod_unfold)
  then show ?thesis by (simp only: np_dot_def np_sum_exact)
qed

lemma dot_centred:
  "np_dot exact (map Fin (map (\<lambda>x. x - mean xs) xs)) (map Fin (map (\<lambda>y. y - mean ys) ys))
     = Fin (\<Sum>(x, y)\<leftarrow>zip xs ys. (x - mean xs) * (y - mean ys))"
  by (simp only: np_dot_exact) (simp add: zip_map_map case_prod_unfold comp_def)

lemma cov_entry:
  assumes "2 \<le> length xs"
  shows "fmul exact (Fin (\<Sum>(x, y)\<leftarrow>zip xs ys. (x - mean xs) * (y - mean ys)))
           (fdiv exact (Fin 1) (Fin (real_of_int (int (length xs) - 1))))
         = Fin (sample_covariance xs ys)"
proof -
  have "real_of_int (int (length xs) - 1) = real (length xs) - 1" by simp
  moreover have "real (length xs) - 1 \<noteq> 0" using assms by simp
  ultimately show ?thesis by (simp add: sample_covariance_def)
qed

lemma np_cov_exact:
  assumes "length xs = length ys" and "2 \<le> length xs"
  shows "np_cov exact (map Fin xs) (map Fin ys) 1
           = Inr [[Fin (sample_covariance xs xs), Fin (sample_covariance xs ys)],
                  [Fin (sample_covariance ys xs), Fin (sample_covariance ys ys)]]"
proof -
  have ne: "xs \<noteq> []" "ys \<noteq> []" using assms by auto
  have f: "(if int (length xs) - 1 \<le> 0 then 0 else int (length xs) - 1) = int (length xs) - 1"
    using assms(2) by simp
  have ly: "2 \<le> length ys" using assms by simp
  have h: "(length xs \<noteq> length ys) = False" using assms(1) by simp
  have "np_cov exact (map Fin xs) (map Fin ys) 1
      = Inr (map (\<lambda>u. map (\<lambda>v. fmul exact (np_dot exact u v)
                 (fdiv exact (Fin 1) (Fin (real_of_int (int (length xs) - 1)))))
               [centre exact (map Fin xs), centre exact (map Fin ys)])
             [centre exact (map Fin xs), centre exact (map Fin ys)])"
    by (simp only: np_cov_def Let_def length_map h f list.map if_False)
  also have "\<dots> = Inr [[Fin (sample_covariance xs xs), Fin (sample_covariance xs ys)],
                  [Fin (sample_covariance ys xs), Fin (sample_covariance ys ys)]]"
    using cov_entry [OF assms(2)] cov_entry [OF ly] assms(1)
    by (simp only: centre_exact [OF ne(1)] centre_exact [OF ne(2)] list.map dot_centred)
  finally show ?thesis .
qed

lemma sample_covariance_same: "sample_covariance xs xs = sample_variance xs"
  by (simp add: sample_covariance_def sample_variance_def zip_same_conv_map comp_def
      power2_eq_square)

text \<open>
  In exact arithmetic, for a fund and a benchmark series of one length, beta is NaN when
  at most one usable pair remains or the sample variance of the benchmark over the
  usable pairs is 0, and the sample covariance divided by that variance otherwise.
\<close>

lemma beta_refines:
  assumes "length fund = length benchmark"
  shows "beta exact (series fund) (series benchmark) = Inr (spec_beta fund benchmark)"
proof -
  define ps where "ps = usable_pairs fund benchmark"
  define valid where
    "valid = map2 (\<lambda>r b. \<not> (isnan r \<or> isnan b)) (series fund) (series benchmark)"
  define fv where "fv = map Fin (map fst ps)"
  define bv where "bv = map Fin (map snd ps)"
  have lv: "length valid = length fund" using assms by (simp add: valid_def series_def)
  have b: "broadcast (\<lambda>r b. \<not> (isnan r \<or> isnan b)) (series fund) (series benchmark) = Inr valid"
    using assms by (simp add: broadcast_def series_def valid_def)
  have cnt: "count_true valid = length ps"
    unfolding valid_def ps_def by (rule valid_pairs(1) [OF assms])
  have i1: "bool_index (series fund) valid = Inr fv"
    using lv valid_pairs(2) [OF assms]
    by (simp add: bool_index_def valid_def ps_def fv_def series_def)
  have i2: "bool_index (series benchmark) valid = Inr bv"
    using lv assms valid_pairs(3) [OF assms]
    by (simp add: bool_index_def valid_def ps_def bv_def series_def)
  show ?thesis
  proof (cases "length ps \<le> 1")
    case True
    then show ?thesis
      unfolding beta_def b
      by (simp add: bind_result_def cnt spec_beta_def ps_def [symmetric])
  next
    case False
    then have l2: "2 \<le> length (map snd ps)" "2 \<le> length (map fst ps)" by simp_all
    have c: "np_cov exact fv bv 1
      = Inr [[Fin (sample_covariance (map fst ps) (map fst ps)), Fin (sample_covariance (map fst ps) (map snd ps))],
             [Fin (sample_covariance (map snd ps) (map fst ps)), Fin (sample_covariance (map snd ps) (map snd ps))]]"
      unfolding fv_def bv_def by (rule np_cov_exact) (use l2 in simp_all)
    have v: "np_var exact bv 1 = Fin (sample_variance (map snd ps))"
      unfolding bv_def by (rule np_var_exact [OF l2(1)])
    show ?thesis
      unfolding beta_def b
      using False
      by (simp add: bind_result_def cnt i1 i2 c v feq_def spec_beta_def ps_def [symmetric] Let_def)
  qed
qed

section \<open>Coefficient of determination\<close>

lemma np_corrcoef_of_cov:
  assumes "np_cov rnd x y 1 = Inr [[a, b], [c, d]]"
  shows "np_corrcoef rnd x y =
      Inr [[np_clip (fdiv rnd (fdiv rnd a (fsqrt rnd a)) (fsqrt rnd a)) (Fin (- 1)) (Fin 1),
            np_clip (fdiv rnd (fdiv rnd b (fsqrt rnd a)) (fsqrt rnd d)) (Fin (- 1)) (Fin 1)],
           [np_clip (fdiv rnd (fdiv rnd c (fsqrt rnd d)) (fsqrt rnd a)) (Fin (- 1)) (Fin 1),
            np_clip (fdiv rnd (fdiv rnd d (fsqrt rnd d)) (fsqrt rnd d)) (Fin (- 1)) (Fin 1)]]"
  by (simp add: np_corrcoef_def assms bind_result_def Let_def)

lemma np_clip_range:
  "np_clip v (Fin (- 1)) (Fin 1) = NaN
   \<or> (\<exists>a. np_clip v (Fin (- 1)) (Fin 1) = Fin a \<and> - 1 \<le> a \<and> a \<le> 1)"
  by (cases v) (auto simp: np_clip_def)

lemma fpow_square_range:
  assumes "v = NaN \<or> (\<exists>a. v = Fin a \<and> - 1 \<le> a \<and> a \<le> 1)"
  shows "fpow exact v 2 = NaN \<or> (\<exists>s. fpow exact v 2 = Fin s \<and> 0 \<le> s \<and> s \<le> 1)"
proof -
  have "fpow exact (Fin a) 2 = Fin (a\<^sup>2)" for a
    by (simp add: is_integer_def)
  moreover have "a\<^sup>2 \<le> 1" if "- 1 \<le> a" "a \<le> 1" for a :: real
  proof -
    have "\<bar>a\<bar> \<le> 1" using that by simp
    then have "\<bar>a\<bar> * \<bar>a\<bar> \<le> 1 * 1" by (intro mult_mono) simp_all
    then show ?thesis by (simp add: power2_eq_square)
  qed
  ultimately show ?thesis using assms by auto
qed

lemma zero_variance_covariance:
  assumes "length xs = length ys" and "2 \<le> length ys" and "sample_variance ys = 0"
  shows "sample_covariance xs ys = 0"
proof -
  have "real (length ys) - 1 \<noteq> 0" using assms(2) by simp
  then have "(\<Sum>y\<leftarrow>ys. (y - mean ys)\<^sup>2) = 0"
    using assms(3) by (simp add: sample_variance_def)
  then have "\<forall>y\<in>set ys. (y - mean ys)\<^sup>2 = 0"
    by (subst (asm) sum_list_nonneg_eq_0_iff) auto
  then have z: "\<forall>y\<in>set ys. y - mean ys = 0" by simp
  have "(\<Sum>(x, y)\<leftarrow>zip xs ys. (x - mean xs) * (y - mean ys)) = (\<Sum>(x, y)\<leftarrow>zip xs ys. 0)"
  proof (rule arg_cong [where f = sum_list], rule map_cong [OF refl])
    fix p assume "p \<in> set (zip xs ys)"
    then have "snd p \<in> set ys" by (metis in_set_zipE prod.collapse)
    then show "(case p of (x, y) \<Rightarrow> (x - mean xs) * (y - mean ys)) = (case p of (x, y) \<Rightarrow> 0)"
      using z by (simp add: case_prod_unfold)
  qed
  also have "\<dots> = 0" by (simp add: case_prod_unfold)
  finally show ?thesis by (simp add: sample_covariance_def)
qed

lemma r_squared_exact:
  assumes "length fund = length benchmark"
  shows "r_squared exact (series fund) (series benchmark) =
     (let ps = usable_pairs fund benchmark; fs = map fst ps; bs = map snd ps
      in if length ps \<le> 1 then Inr NaN
         else Inr (fpow exact
                (np_clip (fdiv exact (fdiv exact (Fin (sample_covariance fs bs))
                                        (fsqrt exact (Fin (sample_variance fs))))
                            (fsqrt exact (Fin (sample_variance bs))))
                   (Fin (- 1)) (Fin 1)) 2))"
proof -
  define ps where "ps = usable_pairs fund benchmark"
  define valid where
    "valid = map2 (\<lambda>r b. \<not> (isnan r \<or> isnan b)) (series fund) (series benchmark)"
  define fv where "fv = map Fin (map fst ps)"
  define bv where "bv = map Fin (map snd ps)"
  have lv: "length valid = length fund" using assms by (simp add: valid_def series_def)
  have b: "broadcast (\<lambda>r b. \<not> (isnan r \<or> isnan b)) (series fund) (series benchmark) = Inr valid"
    using assms by (simp add: broadcast_def series_def valid_def)
  have cnt: "count_true valid = length ps"
    unfolding valid_def ps_def by (rule valid_pairs(1) [OF assms])
  have i1: "bool_index (series fund) valid = Inr fv"
    using lv valid_pairs(2) [OF assms]
    by (simp add: bool_index_def valid_def ps_def fv_def series_def)
  have i2: "bool_index (series benchmark) valid = Inr bv"
    using lv assms valid_pairs(3) [OF assms]
    by (simp add: bool_index_def valid_def ps_def bv_def series_def)
  show ?thesis
  proof (cases "length ps \<le> 1")
    case True
    then show ?thesis
      unfolding r_squared_def b
      by (simp add: bind_result_def cnt ps_def [symmetric])
  next
    case False
    then have l2: "2 \<le> length (map snd ps)" "2 \<le> length (map fst ps)" by simp_all
    have c: "np_cov exact fv bv 1
      = Inr [[Fin (sample_covariance (map fst ps) (map fst ps)), Fin (sample_covariance (map fst ps) (map snd ps))],
             [Fin (sample_covariance (map snd ps) (map fst ps)), Fin (sample_covariance (map snd ps) (map snd ps))]]"
      unfolding fv_def bv_def by (rule np_cov_exact) (use l2 in simp_all)
    show ?thesis
      unfolding r_squared_def b
      using False
      by (simp add: bind_result_def cnt i1 i2 np_corrcoef_of_cov [OF c] ps_def [symmetric] Let_def
          sample_covariance_same del: fpow.simps fdiv.simps fsqrt.simps)
  qed
qed

text \<open>
  In exact arithmetic, for a fund and a benchmark series of one length, the coefficient
  of determination is NaN when the benchmark has sample variance 0 over the usable
  pairs, and every result that is not NaN is a value between 0 and 1.
\<close>

lemma r_squared_zero_variance_and_range:
  assumes "length fund = length benchmark"
  shows "(sample_variance (map snd (usable_pairs fund benchmark)) = 0
            \<longrightarrow> r_squared exact (series fund) (series benchmark) = Inr NaN)
       \<and> (r_squared exact (series fund) (series benchmark) = Inr NaN
            \<or> (\<exists>v. r_squared exact (series fund) (series benchmark) = Inr (Fin v) \<and> 0 \<le> v \<and> v \<le> 1))"
proof -
  define ps where "ps = usable_pairs fund benchmark"
  define q where "q = fdiv exact (fdiv exact (Fin (sample_covariance (map fst ps) (map snd ps)))
                                        (fsqrt exact (Fin (sample_variance (map fst ps)))))
                            (fsqrt exact (Fin (sample_variance (map snd ps))))"
  have r: "r_squared exact (series fund) (series benchmark) =
      (if length ps \<le> 1 then Inr NaN else Inr (fpow exact (np_clip q (Fin (- 1)) (Fin 1)) 2))"
    by (simp only: r_squared_exact [OF assms] Let_def ps_def q_def)
  have range: "fpow exact (np_clip q (Fin (- 1)) (Fin 1)) 2 = NaN
       \<or> (\<exists>s. fpow exact (np_clip q (Fin (- 1)) (Fin 1)) 2 = Fin s \<and> 0 \<le> s \<and> s \<le> 1)"
    by (rule fpow_square_range [OF np_clip_range])
  have zero: "fpow exact (np_clip q (Fin (- 1)) (Fin 1)) 2 = NaN"
    if "\<not> length ps \<le> 1" and z: "sample_variance (map snd ps) = 0"
  proof -
    have "sample_covariance (map fst ps) (map snd ps) = 0"
      by (rule zero_variance_covariance) (use that in simp_all)
    then have "q = NaN"
      by (simp add: q_def z)
    then show ?thesis by (simp add: np_clip_def)
  qed
  show ?thesis
    unfolding ps_def [symmetric] r using range zero by auto
qed

section \<open>Volatility and Sharpe ratio in exact arithmetic\<close>

lemma count_observed:
  "count_true (map Not (map isnan (series rs))) = length (observed rs)"
  by (induction rs rule: observed.induct) (simp_all add: series_def count_true_def)

lemma sum_list_observed:
  "(\<Sum>r\<leftarrow>rs. case r of None \<Rightarrow> 0 | Some x \<Rightarrow> f x) = (\<Sum>x\<leftarrow>observed rs. (f x :: real))"
  by (induction rs rule: observed.induct) simp_all

lemma replace_nan_series:
  "map (\<lambda>v. if isnan v then Fin 0 else v) (series rs)
     = map Fin (map (\<lambda>r. case r of None \<Rightarrow> 0 | Some x \<Rightarrow> x) rs)"
  by (induction rs rule: observed.induct) (simp_all add: series_def)

lemma masked_deviations:
  "map (\<lambda>v. fmul exact v v)
     (map2 (\<lambda>v m. if m then Fin 0 else v)
        (map (\<lambda>v. fsub exact v (Fin \<mu>)) (map Fin (map (\<lambda>r. case r of None \<Rightarrow> 0 | Some x \<Rightarrow> x) rs)))
        (map isnan (series rs)))
     = map Fin (map (\<lambda>r. case r of None \<Rightarrow> 0 | Some x \<Rightarrow> (x - \<mu>)\<^sup>2) rs)"
  by (induction rs rule: observed.induct) (simp_all add: series_def power2_eq_square)

lemma np_nanvar_exact:
  "np_nanvar exact (series rs) 1 =
     (if length (observed rs) \<le> 1 then NaN else Fin (sample_variance (observed rs)))"
proof (cases "length (observed rs) \<le> 1")
  case True
  then have "int (count_true (map Not (map isnan (series rs)))) - 1 \<le> 0"
    using count_observed [of rs] by simp
  then show ?thesis using True by (simp only: np_nanvar_def Let_def if_True)
next
  case False
  let ?xs = "observed rs"
  let ?zs = "map (\<lambda>r. case r of None \<Rightarrow> 0 | Some x \<Rightarrow> x) rs"
  have n: "real (length ?xs) \<noteq> 0" "real (length ?xs) - 1 \<noteq> 0" using False by auto
  have cnt: "int (count_true (map Not (map isnan (series rs)))) = int (length ?xs)"
    using count_observed [of rs] by simp
  have d: "\<not> int (length ?xs) - 1 \<le> 0" using False by simp
  have s: "sum_list ?zs = sum_list ?xs"
    using sum_list_observed [of "\<lambda>x. x" rs] by simp
  have avg: "fdiv exact (np_sum exact (map Fin ?zs)) (Fin (real_of_int (int (length ?xs)))) = Fin (mean ?xs)"
    using n np_sum_exact [of ?zs] s by (simp add: mean_def)
  have ss: "(\<Sum>r\<leftarrow>rs. case r of None \<Rightarrow> 0 | Some x \<Rightarrow> (x - mean ?xs)\<^sup>2)
      = (\<Sum>x\<leftarrow>?xs. (x - mean ?xs)\<^sup>2)"
    by (rule sum_list_observed)
  have "np_nanvar exact (series rs) 1
      = fdiv exact (np_sum exact (map Fin (map (\<lambda>r. case r of None \<Rightarrow> 0 | Some x \<Rightarrow> (x - mean ?xs)\<^sup>2) rs)))
          (Fin (real_of_int (int (length ?xs) - 1)))"
    using d by (simp only: np_nanvar_def Let_def cnt replace_nan_series avg masked_deviations if_False)
  also have "\<dots> = Fin (sample_variance ?xs)"
    using n by (simp only: np_sum_exact ss) (simp add: sample_variance_def)
  finally show ?thesis using False by simp
qed

lemma volatility_exact:
  "volatility exact (series rs) =
     (if length (observed rs) \<le> 1 then NaN else Fin (sample_std (observed rs) * sqrt 12))"
proof (cases "length (observed rs) \<le> 1")
  case True
  then show ?thesis by (simp add: volatility_def np_nanstd_def np_nanvar_exact)
next
  case False
  then have "0 \<le> sample_variance (observed rs)"
    by (intro sample_variance_nonneg) simp
  then show ?thesis using False
    by (simp add: volatility_def np_nanstd_def np_nanvar_exact sample_std_def)
qed

lemma observed_constant:
  assumes "set rs \<subseteq> {None, Some c}"
  shows "observed rs = replicate (length (observed rs)) c"
  using assms by (induction rs rule: observed.induct) simp_all

lemma sample_variance_constant: "sample_variance (replicate n c) = 0"
proof (cases n)
  case 0
  then show ?thesis by (simp add: sample_variance_def)
next
  case (Suc k)
  then have "real n \<noteq> 0" by simp
  then have "mean (replicate n c) = c" by (simp add: mean_def sum_list_replicate)
  then show ?thesis by (simp add: sample_variance_def sum_list_replicate)
qed

lemma sharpe_ratio_guard:
  assumes "volatility rnd returns = Fin 0 \<or> isnan (volatility rnd returns)"
  shows "sharpe_ratio rnd returns (Scalar rf) = Inr NaN"
  using assms by (auto simp: sharpe_ratio_def bind_result_def feq_def)

lemma sharpe_ratio_guard_array:
  assumes "broadcast (fsub rnd) returns rf = Inr excess_returns"
    and "volatility rnd excess_returns = Fin 0 \<or> isnan (volatility rnd excess_returns)"
  shows "sharpe_ratio rnd returns (Array rf) = Inr NaN"
  using assms by (auto simp: sharpe_ratio_def bind_result_def feq_def)

lemma volatility_constant_exact:
  assumes "set rs \<subseteq> {None, Some c}" and "2 \<le> length (observed rs)"
  shows "volatility exact (series rs) = Fin 0"
    and "sharpe_ratio exact (series rs) (Scalar rf) = Inr NaN"
proof -
  have "sample_variance (observed rs) = 0"
    using observed_constant [OF assms(1)] sample_variance_constant by metis
  then show v: "volatility exact (series rs) = Fin 0"
    using assms(2) by (simp add: volatility_exact sample_std_def)
  show "sharpe_ratio exact (series rs) (Scalar rf) = Inr NaN"
    by (rule sharpe_ratio_guard) (simp add: v)
qed

section \<open>Volatility and Sharpe ratio in double precision\<close>

lemma round_half_even_ge_floor: "\<lfloor>z\<rfloor> \<le> round_half_even z"
  by (simp add: round_half_even_def Let_def)

lemma round_half_even_int [simp]: "round_half_even (of_int n) = n"
  by (simp add: round_half_even_def)

lemma binary64_pos:
  assumes "0 < y"
  shows "0 < binary64 y"
proof -
  define k where "k = \<lfloor>log 2 \<bar>y\<bar>\<rfloor>"
  define z where "z = y / 2 powr of_int (k - 52)"
  have "of_int k \<le> log 2 y" using assms by (simp add: k_def)
  then have "2 powr of_int k \<le> 2 powr log 2 y" by simp
  then have ky: "2 powr of_int k \<le> y" using assms by simp
  have e: "2 powr (real_of_int k - 52) = 2 powr of_int k / (2::real) ^ 52"
    by (simp add: powr_diff)
  have "z = y / 2 powr of_int k * 2 ^ 52" by (simp add: z_def e)
  moreover have "1 \<le> y / 2 powr of_int k" using ky by simp
  ultimately have "1 * 2 ^ 52 \<le> z" by (simp only: mult_right_mono zero_le_power zero_le_numeral)
  then have "1 \<le> z" by simp
  then have "1 \<le> \<lfloor>z\<rfloor>" by simp
  then have "0 < round_half_even z" using round_half_even_ge_floor [of z] by linarith
  then have "0 < real_of_int (round_half_even z) * 2 powr real_of_int (k - 52)" by simp
  then show ?thesis using assms by (simp add: binary64_def Let_def k_def z_def)
qed

lemma binary64_scaled:
  assumes "2 ^ 52 \<le> \<bar>y\<bar> * 2 ^ p" and "\<bar>y\<bar> * 2 ^ p < 2 ^ 53"
  shows "binary64 y = of_int (round_half_even (y * 2 ^ p)) / 2 ^ p"
proof -
  have y0: "y \<noteq> 0" using assms(1) by auto
  then have pos: "0 < \<bar>y\<bar>" by simp
  have p1: "2 powr of_int (52 - int p) = 2 ^ 52 / (2::real) ^ p"
    by (simp add: powr_diff powr_realpow)
  have p2: "2 powr (of_int (52 - int p) + 1) = 2 ^ 53 / (2::real) ^ p"
    by (simp add: powr_diff powr_realpow)
  have "2 powr of_int (52 - int p) \<le> \<bar>y\<bar>" "\<bar>y\<bar> < 2 powr (of_int (52 - int p) + 1)"
    using assms by (simp_all only: p1 p2) (simp_all add: field_simps)
  then have k: "\<lfloor>log 2 \<bar>y\<bar>\<rfloor> = 52 - int p"
    using floor_log_eq_powr_iff [OF pos, of 2 "52 - int p"] by simp
  have e: "2 powr (- real p) = 1 / (2::real) ^ p"
    by (simp add: powr_minus powr_realpow divide_inverse)
  show ?thesis
    using y0 by (simp add: binary64_def Let_def k e)
qed

lemma round_half_even_minus: "round_half_even (- z) = - round_half_even z"
proof (cases "z = of_int \<lfloor>z\<rfloor>")
  case True
  then obtain n where "z = of_int n" ..
  then show ?thesis by (simp add: round_half_even_def del: of_int_minus add: of_int_minus [symmetric])
next
  case False
  define f where "f = \<lfloor>z\<rfloor>"
  have lo: "of_int f < z" using False of_int_floor_le [of z] unfolding f_def by linarith
  have hi: "z < of_int f + 1" by (simp add: f_def)
  have fl: "\<lfloor>- z\<rfloor> = - f - 1"
    using lo hi by (intro floor_unique) simp_all
  have ev: "even (- f - 1) \<longleftrightarrow> odd f" by simp
  show ?thesis
    using lo hi unfolding round_half_even_def Let_def fl ev f_def [symmetric]
    by (auto simp: field_simps)
qed

lemma binary64_minus: "binary64 (- x) = - binary64 x"
  by (simp add: binary64_def Let_def round_half_even_minus)

text \<open>
  The sum of three times \<open>tenth\<close> rounds up at a tie, so the mean of the three is the
  next double above \<open>tenth\<close>, and each deviation from it is \<open>- 1 / 2 ^ 56\<close>.
\<close>

lemma round_two_tenths: "binary64 (tenth + tenth) = 3602879701896397 / 2 ^ 54"
  using binary64_scaled [of "tenth + tenth" 55] by (simp add: tenth_def round_half_even_def)

lemma round_three_tenths: "binary64 (3602879701896397 / 2 ^ 54 + tenth) = 5404319552844596 / 2 ^ 54"
  using binary64_scaled [of "3602879701896397 / 2 ^ 54 + tenth" 54]
  by (simp add: tenth_def round_half_even_def)

lemma round_mean: "binary64 (5404319552844596 / 2 ^ 54 / 3) = 7205759403792795 / 2 ^ 56"
  using binary64_scaled [of "5404319552844596 / 2 ^ 54 / 3" 56]
  by (simp add: round_half_even_def)

lemma round_deviation: "binary64 (tenth - 7205759403792795 / 2 ^ 56) = - (1 / 2 ^ 56)"
  using binary64_scaled [of "tenth - 7205759403792795 / 2 ^ 56" 108]
  by (simp add: tenth_def round_half_even_def)

lemma round_square: "binary64 (- (1 / 2 ^ 56) * - (1 / 2 ^ 56)) = 1 / 2 ^ 112"
  using binary64_scaled [of "- (1 / 2 ^ 56) * - (1 / 2 ^ 56)" 164]
  by (simp add: round_half_even_def)

lemma round_two_squares: "binary64 (1 / 2 ^ 112 + 1 / 2 ^ 112) = 1 / 2 ^ 111"
  using binary64_scaled [of "1 / 2 ^ 112 + 1 / 2 ^ 112" 163]
  by (simp add: round_half_even_def)

lemma round_three_squares: "binary64 (1 / 2 ^ 111 + 1 / 2 ^ 112) = 3 / 2 ^ 112"
  using binary64_scaled [of "1 / 2 ^ 111 + 1 / 2 ^ 112" 163]
  by (simp add: round_half_even_def)

lemma round_variance: "binary64 (3 / 2 ^ 112 / 2) = 3 / 2 ^ 113"
  using binary64_scaled [of "3 / 2 ^ 112 / 2" 164]
  by (simp add: round_half_even_def)


lemma np_sum3: "np_sum rnd [Fin a, Fin b, Fin c] = Fin (rnd (rnd (a + b) + c))"
  by (simp add: np_sum_def)

lemma np_nanvar3:
  "np_nanvar rnd [Fin a, Fin b, Fin c] 1 =
     fdiv rnd (np_sum rnd
        (map (\<lambda>v. fmul rnd (fsub rnd v (fdiv rnd (np_sum rnd [Fin a, Fin b, Fin c]) (Fin 3)))
                            (fsub rnd v (fdiv rnd (np_sum rnd [Fin a, Fin b, Fin c]) (Fin 3))))
           [Fin a, Fin b, Fin c]))
       (Fin 2)"
  by (simp add: np_nanvar_def count_true_def Let_def del: fdiv.simps fmul.simps fsub_Fin)

lemma nanvar_tenth: "np_nanvar binary64 [Fin tenth, Fin tenth, Fin tenth] 1 = Fin (3 / 2 ^ 113)"
proof -
  have s: "np_sum binary64 [Fin tenth, Fin tenth, Fin tenth] = Fin (5404319552844596 / 2 ^ 54)"
    by (simp only: np_sum3 round_two_tenths round_three_tenths)
  have q: "np_sum binary64 [Fin (1 / 2 ^ 112), Fin (1 / 2 ^ 112), Fin (1 / 2 ^ 112)] = Fin (3 / 2 ^ 112)"
    by (simp only: np_sum3 round_two_squares round_three_squares)
  have avg: "fdiv binary64 (Fin (5404319552844596 / 2 ^ 54)) (Fin 3) = Fin (7205759403792795 / 2 ^ 56)"
    by (simp only: fdiv.simps round_mean) simp
  have dev: "fsub binary64 (Fin tenth) (Fin (7205759403792795 / 2 ^ 56)) = Fin (- (1 / 2 ^ 56))"
    by (simp only: fsub_Fin round_deviation)
  have sq: "fmul binary64 (Fin (- (1 / 2 ^ 56))) (Fin (- (1 / 2 ^ 56))) = Fin (1 / 2 ^ 112)"
    by (simp only: fmul.simps round_square)
  have var: "fdiv binary64 (Fin (3 / 2 ^ 112)) (Fin 2) = Fin (3 / 2 ^ 113)"
    by (simp only: fdiv.simps round_variance) simp
  show ?thesis
    by (simp only: np_nanvar3 s avg list.map dev sq q var)
qed

lemma fmul_pos:
  assumes "0 < a" and "0 < b"
  shows "flt (Fin 0) (fmul binary64 (Fin a) (Fin b))"
  using binary64_pos [of "a * b"] assms by (simp add: flt_def)

lemma volatility_tenth: "flt (Fin 0) (volatility binary64 [Fin tenth, Fin tenth, Fin tenth])"
proof -
  have "0 < binary64 (sqrt (3 / 2 ^ 113))" by (rule binary64_pos) simp
  moreover have "0 < binary64 (sqrt 12)" by (rule binary64_pos) simp
  ultimately show ?thesis
    using fmul_pos by (simp add: volatility_def np_nanstd_def nanvar_tenth)
qed

lemma annualized_return_tenth:
  "\<exists>a. annualized_return binary64 [Fin tenth, Fin tenth, Fin tenth] = Fin a"
proof -
  define g where "g = binary64 (1 + tenth)"
  have g: "0 < g" unfolding g_def by (rule binary64_pos) (simp add: tenth_def)
  have c: "0 < binary64 (binary64 (g * g) * g)"
    by (intro binary64_pos mult_pos_pos g)
  have y: "0 < binary64 (12 / 3)" by (rule binary64_pos) simp
  show ?thesis
    using c y by (simp add: annualized_return_def np_prod_def g_def [symmetric])
qed

text \<open>
  C3 fails in double precision: for the constant series 0.1, 0.1, 0.1 the variance that
  \<^verbatim>\<open>np.nanstd\<close> computes is \<open>3 / 2 ^ 113\<close>, not 0, so the volatility is positive and
  the comparison \<^verbatim>\<open>vol == 0\<close> of the Sharpe ratio does not hold: the result is the
  quotient, not NaN. In exact arithmetic the same series has volatility 0 and an
  undefined Sharpe ratio (\<open>volatility_constant_exact\<close>), and in every arithmetic the
  Sharpe ratio is NaN when the computed volatility is 0 or NaN (\<open>sharpe_ratio_guard\<close>,
  \<open>sharpe_ratio_guard_array\<close>).
\<close>

theorem sharpe_ratio_tenth:
  "np_nanvar binary64 [Fin tenth, Fin tenth, Fin tenth] 1 = Fin (3 / 2 ^ 113)
   \<and> flt (Fin 0) (volatility binary64 [Fin tenth, Fin tenth, Fin tenth])
   \<and> sharpe_ratio binary64 [Fin tenth, Fin tenth, Fin tenth] (Scalar (Fin 0)) \<noteq> Inr NaN"
proof -
  obtain a where a: "annualized_return binary64 [Fin tenth, Fin tenth, Fin tenth] = Fin a"
    using annualized_return_tenth by blast
  have v: "flt (Fin 0) (volatility binary64 [Fin tenth, Fin tenth, Fin tenth])"
    by (rule volatility_tenth)
  then obtain w where w: "volatility binary64 [Fin tenth, Fin tenth, Fin tenth] = Fin w" "w \<noteq> 0"
    by (cases "volatility binary64 [Fin tenth, Fin tenth, Fin tenth]")
      (auto simp: flt_def volatility_def np_nanstd_def nanvar_tenth)
  have "sharpe_ratio binary64 [Fin tenth, Fin tenth, Fin tenth] (Scalar (Fin 0)) \<noteq> Inr NaN"
    using w by (simp add: sharpe_ratio_def bind_result_def a feq_def)
  then show ?thesis using nanvar_tenth v by blast
qed

section \<open>Beta and coefficient of determination in double precision\<close>

lemma binary64_zero [simp]: "binary64 0 = 0"
  by (simp add: binary64_def)

lemma binary64_representable:
  assumes "2 ^ 52 \<le> \<bar>y\<bar> * 2 ^ p" and "\<bar>y\<bar> * 2 ^ p < 2 ^ 53" and "y * 2 ^ p = of_int n"
  shows "binary64 y = y"
proof -
  have "binary64 y = of_int n / 2 ^ p"
    by (simp only: binary64_scaled [OF assms(1,2)] assms(3) round_half_even_int)
  also have "\<dots> = y" using assms(3) [symmetric] by simp
  finally show ?thesis .
qed

lemma round_1_2: "binary64 (1 + 2) = 3"
  using binary64_representable [of 3 51 "3 * 2 ^ 51"] by simp

lemma round_3_3: "binary64 (3 + 3) = 6"
  using binary64_representable [of 6 50 "6 * 2 ^ 50"] by simp

lemma round_6_3: "binary64 (6 / 3) = 2"
  using binary64_representable [of 2 51 "2 ^ 52"] by simp

lemma round_one: "binary64 1 = 1"
  using binary64_representable [of 1 52 "2 ^ 52"] by simp

lemma round_minus_one: "binary64 (- 1) = - 1"
  using binary64_minus [of 1] by (simp add: round_one)

lemma round_half: "binary64 (1 / 2) = 1 / 2"
  using binary64_representable [of "1 / 2" 53 "2 ^ 52"] by simp

lemma round_two: "binary64 2 = 2"
  using binary64_representable [of 2 51 "2 ^ 52"] by simp

lemma round_ulp: "binary64 (1 / 2 ^ 56) = 1 / 2 ^ 56"
  using binary64_representable [of "1 / 2 ^ 56" 108 "2 ^ 52"] by simp

lemma round_three_half_squares: "binary64 (3 / 2 ^ 112 * (1 / 2)) = 3 / 2 ^ 113"
  using binary64_representable [of "3 / 2 ^ 113" 164 "3 * 2 ^ 51"] by simp

lemma centre3:
  "centre rnd [Fin a, Fin b, Fin c] =
     [Fin (rnd (a - rnd (rnd (rnd (a + b) + c) / 3))),
      Fin (rnd (b - rnd (rnd (rnd (a + b) + c) / 3))),
      Fin (rnd (c - rnd (rnd (rnd (a + b) + c) / 3)))]"
  by (simp add: centre_def np_sum3)

lemma np_dot3:
  "np_dot rnd [Fin a, Fin b, Fin c] [Fin x, Fin y, Fin z]
     = Fin (rnd (rnd (rnd (a * x) + rnd (b * y)) + rnd (c * z)))"
  by (simp add: np_dot_def np_sum3)

lemma np_var3:
  "np_var rnd [Fin a, Fin b, Fin c] 1 =
     fdiv rnd (np_sum rnd
        (map (\<lambda>v. fmul rnd v v)
           (map (\<lambda>v. fsub rnd v (fdiv rnd (np_sum rnd [Fin a, Fin b, Fin c]) (Fin 3)))
              [Fin a, Fin b, Fin c])))
       (Fin 2)"
  by (simp add: np_var_def Let_def del: fdiv.simps fmul.simps fsub_Fin)

lemma np_cov_rows:
  assumes "length x = length y"
  shows "np_cov rnd x y 1 =
    Inr (map (\<lambda>u. map (\<lambda>v. fmul rnd (np_dot rnd u v)
                 (fdiv rnd (Fin 1) (Fin (real_of_int (if int (length x) - 1 \<le> 0 then 0 else int (length x) - 1)))))
               [centre rnd x, centre rnd y])
             [centre rnd x, centre rnd y])"
  using assms by (simp add: np_cov_def Let_def del: fdiv.simps)

lemma centre_fund: "centre binary64 [Fin 1, Fin 2, Fin 3] = [Fin (- 1), Fin 0, Fin 1]"
proof -
  have a: "binary64 (1 - 2) = - 1" using round_minus_one by simp
  have b: "binary64 (2 - 2) = 0" by simp
  have c: "binary64 (3 - 2) = 1" using round_one by simp
  show ?thesis by (simp only: centre3 round_1_2 round_3_3 round_6_3 a b c)
qed

lemma centre_benchmark:
  "centre binary64 [Fin tenth, Fin tenth, Fin tenth]
     = [Fin (- (1 / 2 ^ 56)), Fin (- (1 / 2 ^ 56)), Fin (- (1 / 2 ^ 56))]"
  by (simp only: centre3 round_two_tenths round_three_tenths round_mean round_deviation)

lemma dot_fund_benchmark:
  "np_dot binary64 [Fin (- 1), Fin 0, Fin 1]
      [Fin (- (1 / 2 ^ 56)), Fin (- (1 / 2 ^ 56)), Fin (- (1 / 2 ^ 56))] = Fin 0"
proof -
  have a: "binary64 (- 1 * - (1 / 2 ^ 56)) = 1 / 2 ^ 56" using round_ulp by simp
  have b: "binary64 (0 * - (1 / 2 ^ 56)) = 0" by simp
  have c: "binary64 (1 * - (1 / 2 ^ 56)) = - (1 / 2 ^ 56)"
    using binary64_minus [of "1 / 2 ^ 56"] round_ulp by simp
  have d: "binary64 (1 / 2 ^ 56 + 0) = 1 / 2 ^ 56" using round_ulp by simp
  have e: "binary64 (1 / 2 ^ 56 + - (1 / 2 ^ 56)) = 0" by simp
  show ?thesis by (simp only: np_dot3 a b c d e)
qed

lemma dot_fund_fund:
  "np_dot binary64 [Fin (- 1), Fin 0, Fin 1] [Fin (- 1), Fin 0, Fin 1] = Fin 2"
proof -
  have a: "binary64 (- 1 * - 1) = 1" using round_one by simp
  have b: "binary64 (0 * 0) = 0" by simp
  have c: "binary64 (1 * 1) = 1" using round_one by simp
  have d: "binary64 (1 + 0) = 1" using round_one by simp
  have e: "binary64 (1 + 1) = 2" using round_two by simp
  show ?thesis by (simp only: np_dot3 a b c d e)
qed

lemma dot_benchmark_benchmark:
  "np_dot binary64 [Fin (- (1 / 2 ^ 56)), Fin (- (1 / 2 ^ 56)), Fin (- (1 / 2 ^ 56))]
      [Fin (- (1 / 2 ^ 56)), Fin (- (1 / 2 ^ 56)), Fin (- (1 / 2 ^ 56))] = Fin (3 / 2 ^ 112)"
  by (simp only: np_dot3 round_square round_two_squares round_three_squares)

lemma var_benchmark: "np_var binary64 [Fin tenth, Fin tenth, Fin tenth] 1 = Fin (3 / 2 ^ 113)"
proof -
  have s: "np_sum binary64 [Fin tenth, Fin tenth, Fin tenth] = Fin (5404319552844596 / 2 ^ 54)"
    by (simp only: np_sum3 round_two_tenths round_three_tenths)
  have q: "np_sum binary64 [Fin (1 / 2 ^ 112), Fin (1 / 2 ^ 112), Fin (1 / 2 ^ 112)] = Fin (3 / 2 ^ 112)"
    by (simp only: np_sum3 round_two_squares round_three_squares)
  have avg: "fdiv binary64 (Fin (5404319552844596 / 2 ^ 54)) (Fin 3) = Fin (7205759403792795 / 2 ^ 56)"
    by (simp only: fdiv.simps round_mean) simp
  have dev: "fsub binary64 (Fin tenth) (Fin (7205759403792795 / 2 ^ 56)) = Fin (- (1 / 2 ^ 56))"
    by (simp only: fsub_Fin round_deviation)
  have sq: "fmul binary64 (Fin (- (1 / 2 ^ 56))) (Fin (- (1 / 2 ^ 56))) = Fin (1 / 2 ^ 112)"
    by (simp only: fmul.simps round_square)
  have var: "fdiv binary64 (Fin (3 / 2 ^ 112)) (Fin 2) = Fin (3 / 2 ^ 113)"
    by (simp only: fdiv.simps round_variance) simp
  show ?thesis
    by (simp only: np_var3 s avg list.map dev sq q var)
qed

lemma cov_constant_benchmark:
  "np_cov binary64 [Fin 1, Fin 2, Fin 3] [Fin tenth, Fin tenth, Fin tenth] 1
     = Inr [[Fin 1, Fin 0], [Fin 0, Fin (3 / 2 ^ 113)]]"
proof -
  have f: "real_of_int (if int (length [Fin 1, Fin 2, Fin 3]) - 1 \<le> 0 then 0
              else int (length [Fin 1, Fin 2, Fin 3]) - 1) = 2" by simp
  have h: "fdiv binary64 (Fin 1) (Fin 2) = Fin (1 / 2)"
    by (simp only: fdiv.simps round_half) simp
  have sw: "np_dot binary64 [Fin (- (1 / 2 ^ 56)), Fin (- (1 / 2 ^ 56)), Fin (- (1 / 2 ^ 56))]
      [Fin (- 1), Fin 0, Fin 1] = Fin 0"
  proof -
    have a: "binary64 (- (1 / 2 ^ 56) * - 1) = 1 / 2 ^ 56" using round_ulp by simp
    have b: "binary64 (- (1 / 2 ^ 56) * 0) = 0" by simp
    have c: "binary64 (- (1 / 2 ^ 56) * 1) = - (1 / 2 ^ 56)"
      using binary64_minus [of "1 / 2 ^ 56"] round_ulp by simp
    have d: "binary64 (1 / 2 ^ 56 + 0) = 1 / 2 ^ 56" using round_ulp by simp
    have e: "binary64 (1 / 2 ^ 56 + - (1 / 2 ^ 56)) = 0" by simp
    show ?thesis by (simp only: np_dot3 a b c d e)
  qed
  have m1: "fmul binary64 (Fin 2) (Fin (1 / 2)) = Fin 1" using round_one by simp
  have m0: "fmul binary64 (Fin 0) (Fin (1 / 2)) = Fin 0" by simp
  have m3: "fmul binary64 (Fin (3 / 2 ^ 112)) (Fin (1 / 2)) = Fin (3 / 2 ^ 113)"
    by (simp only: fmul.simps round_three_half_squares)
  have l: "length [Fin 1, Fin 2, Fin 3] = length [Fin tenth, Fin tenth, Fin tenth]" by simp
  show ?thesis
    by (simp only: np_cov_rows [OF l] f h centre_fund centre_benchmark list.map
        dot_fund_fund dot_fund_benchmark sw dot_benchmark_benchmark m1 m0 m3)
qed

text \<open>
  C5 fails in double precision: for the fund returns 1, 2, 3 and the constant benchmark
  0.1, 0.1, 0.1 the variance that \<^verbatim>\<open>np.var\<close> computes is \<open>3 / 2 ^ 113\<close>, not 0, so
  the comparison \<^verbatim>\<open>var == 0\<close> does not hold and beta is the quotient of the covariance
  0 and that variance, the number 0, not NaN. In exact arithmetic beta is NaN there
  (\<open>beta_refines\<close>).
\<close>

theorem beta_constant_benchmark:
  "beta binary64 [Fin 1, Fin 2, Fin 3] [Fin tenth, Fin tenth, Fin tenth] = Inr (Fin 0)"
proof -
  have v: "broadcast (\<lambda>r b. \<not> (isnan r \<or> isnan b)) [Fin 1, Fin 2, Fin 3] [Fin tenth, Fin tenth, Fin tenth]
         = Inr [True, True, True]"
    by (simp add: broadcast_def)
  have i1: "bool_index [Fin 1, Fin 2, Fin 3] [True, True, True] = Inr [Fin 1, Fin 2, Fin 3]"
    by (simp add: bool_index_def)
  have i2: "bool_index [Fin tenth, Fin tenth, Fin tenth] [True, True, True]
         = Inr [Fin tenth, Fin tenth, Fin tenth]"
    by (simp add: bool_index_def)
  have c: "count_true [True, True, True] = 3" by (simp add: count_true_def)
  show ?thesis
    unfolding beta_def v
    by (simp add: bind_result_def c i1 i2 cov_constant_benchmark var_benchmark feq_def)
qed

text \<open>
  C6 fails in double precision: for the same two series \<^verbatim>\<open>np.corrcoef\<close> divides
  the covariance 0 by the standard deviations 1 and \<open>sqrt (3 / 2 ^ 113)\<close>, none of them
  0, so the correlation is 0 and the coefficient of determination is the number 0, not
  NaN, although the benchmark is constant. In exact arithmetic the result is NaN
  (\<open>r_squared_zero_variance_and_range\<close>).
\<close>

theorem r_squared_constant_benchmark:
  "r_squared binary64 [Fin 1, Fin 2, Fin 3] [Fin tenth, Fin tenth, Fin tenth] = Inr (Fin 0)"
proof -
  have v: "broadcast (\<lambda>r b. \<not> (isnan r \<or> isnan b)) [Fin 1, Fin 2, Fin 3] [Fin tenth, Fin tenth, Fin tenth]
         = Inr [True, True, True]"
    by (simp add: broadcast_def)
  have i1: "bool_index [Fin 1, Fin 2, Fin 3] [True, True, True] = Inr [Fin 1, Fin 2, Fin 3]"
    by (simp add: bool_index_def)
  have i2: "bool_index [Fin tenth, Fin tenth, Fin tenth] [True, True, True]
         = Inr [Fin tenth, Fin tenth, Fin tenth]"
    by (simp add: bool_index_def)
  have c: "(count_true [True, True, True] \<le> 1) = False" by (simp add: count_true_def)
  have "0 < binary64 (sqrt (3 / 2 ^ 113))" by (rule binary64_pos) simp
  then have corr: "np_clip (fdiv binary64 (fdiv binary64 (Fin 0) (fsqrt binary64 (Fin 1)))
       (fsqrt binary64 (Fin (3 / 2 ^ 113)))) (Fin (- 1)) (Fin 1) = Fin 0"
    by (simp add: round_one np_clip_def)
  have p: "fpow binary64 (Fin 0) 2 = Fin 0" by simp
  show ?thesis
    unfolding r_squared_def v
    by (simp only: bind_result_def sum.case c if_False i1 i2
        np_corrcoef_of_cov [OF cov_constant_benchmark] Let_def nth_Cons_0 nth_Cons_Suc
        One_nat_def corr p)
      (simp add: count_true_def)
qed

section \<open>No infinite result\<close>

lemma infinite_result_simps [simp]:
  "infinite_result (Inl e) = False" "infinite_result (Inr v) = isinf v"
  by (simp_all add: infinite_result_def)

















































text \<open>
  A result can leave the range of a double: for the one month with the return
  \<open>- 10 ^ 30\<close> the annualized return is, computed exactly, larger than \<open>2 ^ 1024\<close>, and
  every double is smaller than that. The roundings of this theory have an unbounded
  exponent, so the theorem at the end of this section speaks of results within the range.
\<close>

lemma annualized_return_beyond_double_range:
  "annualized_return exact [Fin (- (10 ^ 30))] = Fin ((10 ^ 30 - 1) ^ 12 - 1)
   \<and> (2::real) ^ 1024 < (10 ^ 30 - 1) ^ 12 - 1"
proof -
  have i: "is_integer 12" by (simp add: is_integer_def)
  have p: "(1 - 10 ^ 30 :: real) powi 12 = (10 ^ 30 - 1) ^ 12"
    by (simp add: power_int_def)
  have "annualized_return exact [Fin (- (10 ^ 30))] = Fin ((1 - 10 ^ 30) powi 12 - 1)"
    by (simp add: annualized_return_def np_prod_def i)
  then show ?thesis by (simp add: p)
qed




end
